theory Spec2Isabelle
  imports Complex_Main "HOL-Library.Word" "HOL-Library.Multiset"
begin

section \<open>Coverage profiles and function extents\<close>

text \<open>
  The program reads a Go coverage profile and reports, for every source file of the
  profile, the share of statements that ran. Go's \<^verbatim>\<open>int\<close> is a signed machine integer
  of 32 or 64 bits. The fields of that type are only compared with each other or
  converted to \<^verbatim>\<open>int64\<close>, so a field is modelled by the integer it denotes. The
  \<^verbatim>\<open>int64\<close> counters are 64-bit words: their addition wraps, as Go's does, and
  \<open>sint\<close> reads the signed value.
\<close>

type_synonym int64 = "64 word"

text \<open>\<^verbatim>\<open>cover.ProfileBlock\<close> and \<^verbatim>\<open>cover.Profile\<close> of golang.org/x/tools/cover.\<close>

record ProfileBlock =
  StartLine :: int
  StartCol :: int
  EndLine :: int
  EndCol :: int
  NumStmt :: int
  Count :: int

record Profile =
  FileName :: string
  Mode :: string
  Blocks :: "ProfileBlock list"

record FuncExtent =
  name :: string
  startLine :: int
  startCol :: int
  endLine :: int
  endCol :: int

subsection \<open>\<^verbatim>\<open>FuncExtent.coverage\<close>\<close>

text \<open>
  The two tests of the loop body: the block starts at or after the end of the function
  (\<^verbatim>\<open>// Past the end of the function.\<close>), the block ends at or before its start
  (\<^verbatim>\<open>// Before the beginning of the function\<close>).
\<close>

definition past_end :: "FuncExtent \<Rightarrow> ProfileBlock \<Rightarrow> bool" where
  "past_end f b \<longleftrightarrow>
     StartLine b > endLine f \<or> (StartLine b = endLine f \<and> StartCol b \<ge> endCol f)"

definition before_start :: "FuncExtent \<Rightarrow> ProfileBlock \<Rightarrow> bool" where
  "before_start f b \<longleftrightarrow>
     EndLine b < startLine f \<or> (EndLine b = startLine f \<and> EndCol b \<le> startCol f)"

text \<open>
  The loop over \<^verbatim>\<open>profile.Blocks\<close>, with the two counters as an accumulator. The
  first test is the \<^verbatim>\<open>break\<close> (the scan returns what it has), the second the
  \<^verbatim>\<open>continue\<close>. The counter \<^verbatim>\<open>total\<close> is written \<open>tot\<close>.
\<close>

fun coverage_loop :: "FuncExtent \<Rightarrow> ProfileBlock list \<Rightarrow> int64 \<times> int64 \<Rightarrow> int64 \<times> int64" where
  "coverage_loop f [] (covered, tot) = (covered, tot)"
| "coverage_loop f (b # bs) (covered, tot) =
     (if past_end f b then (covered, tot)
      else if before_start f b then coverage_loop f bs (covered, tot)
      else coverage_loop f bs
             (if Count b > 0 then covered + word_of_int (NumStmt b) else covered,
              tot + word_of_int (NumStmt b)))"

definition coverage :: "FuncExtent \<Rightarrow> Profile \<Rightarrow> int64 \<times> int64" where
  "coverage f profile =
     (case coverage_loop f (Blocks profile) (0, 0) of
        (covered, tot) \<Rightarrow> (covered, if tot = 0 then 1 else tot))"

text \<open>
  The scan the specification describes, to compare with the loop above: it runs over all
  blocks, never stops early, and counts every block that overlaps the extent, that is,
  every block that neither starts at or after the extent's end nor ends at or before the
  extent's start.
\<close>

definition overlaps :: "FuncExtent \<Rightarrow> ProfileBlock \<Rightarrow> bool" where
  "overlaps f b \<longleftrightarrow> \<not> past_end f b \<and> \<not> before_start f b"

fun full_scan_loop :: "FuncExtent \<Rightarrow> ProfileBlock list \<Rightarrow> int64 \<times> int64 \<Rightarrow> int64 \<times> int64" where
  "full_scan_loop f [] (covered, tot) = (covered, tot)"
| "full_scan_loop f (b # bs) (covered, tot) =
     (if overlaps f b
      then full_scan_loop f bs
             (if Count b > 0 then covered + word_of_int (NumStmt b) else covered,
              tot + word_of_int (NumStmt b))
      else full_scan_loop f bs (covered, tot))"

definition full_scan_coverage :: "FuncExtent \<Rightarrow> Profile \<Rightarrow> int64 \<times> int64" where
  "full_scan_coverage f profile =
     (case full_scan_loop f (Blocks profile) (0, 0) of
        (covered, tot) \<Rightarrow> (covered, if tot = 0 then 1 else tot))"

text \<open>The order of the blocks of a profile: by start line, then by start column.\<close>

definition start_le :: "ProfileBlock \<Rightarrow> ProfileBlock \<Rightarrow> bool" where
  "start_le a b \<longleftrightarrow>
     StartLine a < StartLine b \<or> (StartLine a = StartLine b \<and> StartCol a \<le> StartCol b)"

section \<open>Function extents of a source file\<close>

text \<open>
  The syntax tree comes from Go's \<^verbatim>\<open>go/parser\<close> and is walked by \<^verbatim>\<open>ast.Walk\<close>; both are
  library code. The tree is modelled as far as \<^verbatim>\<open>FuncVisitor.Visit\<close> can tell nodes
  apart. \<^verbatim>\<open>*ast.FuncDecl\<close> is the node of every declaration \<^verbatim>\<open>func ...\<close> at the top
  level of a file: its field \<^verbatim>\<open>Recv\<close> is \<^verbatim>\<open>nil\<close> for a function and holds the receiver
  for a method. A function literal is an \<^verbatim>\<open>*ast.FuncLit\<close>. Every node carries the nodes
  below it in the order \<^verbatim>\<open>ast.Walk\<close> visits them. A \<open>FuncDecl\<close> holds its receiver, its
  name, its first and its end position as the file set resolves them
  (\<^verbatim>\<open>fset.Position(n.Pos())\<close> and \<^verbatim>\<open>fset.Position(n.End())\<close>), and the other nodes below
  it.
\<close>

record Position =
  Line :: int
  Column :: int

datatype Node =
    File "Node list"
  | FuncDecl "Node option" string Position Position "Node list"
  | FuncLit "Node list"
  | OtherNode "Node list"

text \<open>
  Of the fields of \<^verbatim>\<open>FuncVisitor\<close> the visit writes only \<^verbatim>\<open>funcs\<close>. \<^verbatim>\<open>Visit\<close> returns
  the visitor itself, so the walk always goes on below a node; the model returns the
  updated visitor. \<^verbatim>\<open>ast.Walk\<close> calls \<^verbatim>\<open>Visit(nil)\<close> after the nodes below, which is
  \<open>None\<close> here.
\<close>

record FuncVisitor =
  funcs :: "FuncExtent list"

definition Visit :: "FuncVisitor \<Rightarrow> Node option \<Rightarrow> FuncVisitor" where
  "Visit v node =
     (case node of
        Some (FuncDecl recv nm start end body) \<Rightarrow>
          v\<lparr>funcs := funcs v @
             [\<lparr>name = nm, startLine = Line start, startCol = Column start,
               endLine = Line end, endCol = Column end\<rparr>]\<rparr>
      | _ \<Rightarrow> v)"

fun Walk :: "FuncVisitor \<Rightarrow> Node \<Rightarrow> FuncVisitor"
  and WalkOpt :: "FuncVisitor \<Rightarrow> Node option \<Rightarrow> FuncVisitor"
  and WalkList :: "FuncVisitor \<Rightarrow> Node list \<Rightarrow> FuncVisitor" where
  "Walk v (File decls) = Visit (WalkList (Visit v (Some (File decls))) decls) None"
| "Walk v (FuncDecl recv nm start end body) =
     Visit (WalkList (WalkOpt (Visit v (Some (FuncDecl recv nm start end body))) recv) body) None"
| "Walk v (FuncLit body) = Visit (WalkList (Visit v (Some (FuncLit body))) body) None"
| "Walk v (OtherNode ns) = Visit (WalkList (Visit v (Some (OtherNode ns))) ns) None"
| "WalkOpt v None = v"
| "WalkOpt v (Some n) = Walk v n"
| "WalkList v [] = v"
| "WalkList v (n # ns) = WalkList (Walk v n) ns"

text \<open>
  To state what the walk collects: the nodes of a tree in the order \<^verbatim>\<open>ast.Walk\<close> visits
  them, and the extent of a node that is a function declaration, with or without a
  receiver.
\<close>

fun preorder :: "Node \<Rightarrow> Node list"
  and preorder_opt :: "Node option \<Rightarrow> Node list"
  and preorder_list :: "Node list \<Rightarrow> Node list" where
  "preorder (File decls) = File decls # preorder_list decls"
| "preorder (FuncDecl recv nm start end body) =
     FuncDecl recv nm start end body # preorder_opt recv @ preorder_list body"
| "preorder (FuncLit body) = FuncLit body # preorder_list body"
| "preorder (OtherNode ns) = OtherNode ns # preorder_list ns"
| "preorder_opt None = []"
| "preorder_opt (Some n) = preorder n"
| "preorder_list [] = []"
| "preorder_list (n # ns) = preorder n @ preorder_list ns"

fun decl_extent :: "Node \<Rightarrow> FuncExtent option" where
  "decl_extent (FuncDecl recv nm start end body) =
     Some \<lparr>name = nm, startLine = Line start, startCol = Column start,
           endLine = Line end, endCol = Column end\<rparr>"
| "decl_extent _ = None"

section \<open>Percentages and colours\<close>

text \<open>
  A \<^verbatim>\<open>float64\<close> is not-a-number, an infinity or a finite value, and a finite value is a
  rational number; the model keeps the number and not the sign of a zero. The
  comparisons are exact on this representation: every comparison with NaN is false.
  Arithmetic rounds its exact result to the nearest \<^verbatim>\<open>float64\<close>; the rounding is the
  parameter \<open>rnd\<close> of the operations below. The operands of the program's one
  product and one quotient are finite (they come from \<^verbatim>\<open>int64\<close> values), and their
  results are far from the range limits of the format, so the only special results are
  those of a division by zero.
\<close>

datatype float64 = NaN | PInf | NInf | Finite rat

fun float_le :: "float64 \<Rightarrow> float64 \<Rightarrow> bool" where
  "float_le NaN _ = False"
| "float_le _ NaN = False"
| "float_le NInf _ = True"
| "float_le _ PInf = True"
| "float_le (Finite a) (Finite b) = (a \<le> b)"
| "float_le _ _ = False"

fun float_lt :: "float64 \<Rightarrow> float64 \<Rightarrow> bool" where
  "float_lt NaN _ = False"
| "float_lt _ NaN = False"
| "float_lt PInf _ = False"
| "float_lt _ NInf = False"
| "float_lt NInf _ = True"
| "float_lt _ PInf = True"
| "float_lt (Finite a) (Finite b) = (a < b)"

definition float_ge :: "float64 \<Rightarrow> float64 \<Rightarrow> bool" where
  "float_ge a b = float_le b a"

definition float_gt :: "float64 \<Rightarrow> float64 \<Rightarrow> bool" where
  "float_gt a b = float_lt b a"

text \<open>The conversion \<^verbatim>\<open>float64(x)\<close> of an \<^verbatim>\<open>int64\<close>, the product and the quotient.\<close>

definition float64_of :: "(rat \<Rightarrow> rat) \<Rightarrow> int64 \<Rightarrow> rat" where
  "float64_of rnd x = rnd (of_int (sint x))"

definition float_mul :: "(rat \<Rightarrow> rat) \<Rightarrow> rat \<Rightarrow> rat \<Rightarrow> rat" where
  "float_mul rnd a b = rnd (a * b)"

definition float_div :: "(rat \<Rightarrow> rat) \<Rightarrow> rat \<Rightarrow> rat \<Rightarrow> float64" where
  "float_div rnd a b =
     (if b = 0 then (if a = 0 then NaN else if a > 0 then PInf else NInf)
      else Finite (rnd (a / b)))"

text \<open>The expression \<^verbatim>\<open>100.0 * float64(covered) / float64(total)\<close> of \<^verbatim>\<open>run\<close>.\<close>

definition percent_of :: "(rat \<Rightarrow> rat) \<Rightarrow> int64 \<Rightarrow> int64 \<Rightarrow> float64" where
  "percent_of rnd covered tot =
     float_div rnd (float_mul rnd 100 (float64_of rnd covered)) (float64_of rnd tot)"

text \<open>The colours of \<^verbatim>\<open>ansiterm\<close> that the program uses.\<close>

datatype Color = Default | Red | Yellow | Green

definition getColor :: "float64 \<Rightarrow> Color" where
  "getColor percent =
     (if float_le percent (Finite 30) then Red
      else if float_gt percent (Finite 30) \<and> float_le percent (Finite 70) then Yellow
      else if float_gt percent (Finite 70) then Green
      else Default)"

record coveredFile =
  filename :: string
  percent :: float64

section \<open>Sorting the rows\<close>

text \<open>
  \<^verbatim>\<open>sort.Slice\<close> of Go's library (Go 1.19 and later) sorts a slice of at most 12
  elements with \<^verbatim>\<open>insertionSort_func(data, 0, length)\<close>:
  \<^verbatim>\<open>
  for i := a + 1; i < b; i++ {
      for j := i; j > a && data.Less(j, j-1); j-- {
          data.Swap(j, j-1)
      }
  }
  \<close>
  \<^verbatim>\<open>Less(i, j)\<close> is the closure of \<^verbatim>\<open>run\<close> on the elements now at \<open>i\<close> and \<open>j\<close>. A longer
  slice goes through the pattern-defeating quicksort of the library, which is a
  parameter here. The comparison \<^verbatim>\<open>less\<close> is written \<open>lessf\<close>. The library calls the
  sort with \<open>a = 0\<close> and \<open>b\<close> the length, so every index read is in range.
\<close>

fun insert_loop :: "('a \<Rightarrow> 'a \<Rightarrow> bool) \<Rightarrow> 'a list \<Rightarrow> nat \<Rightarrow> nat \<Rightarrow> 'a list" where
  "insert_loop lessf data a j =
     (if j > a \<and> lessf (data ! j) (data ! (j - 1))
      then insert_loop lessf (data[j := data ! (j - 1), j - 1 := data ! j]) a (j - 1)
      else data)"

definition insertionSort_func :: "('a \<Rightarrow> 'a \<Rightarrow> bool) \<Rightarrow> 'a list \<Rightarrow> nat \<Rightarrow> nat \<Rightarrow> 'a list" where
  "insertionSort_func lessf data a b =
     foldl (\<lambda>data i. insert_loop lessf data a i) data [a + 1 ..< b]"

definition sort_Slice ::
  "(('a \<Rightarrow> 'a \<Rightarrow> bool) \<Rightarrow> 'a list \<Rightarrow> 'a list) \<Rightarrow> 'a list \<Rightarrow> ('a \<Rightarrow> 'a \<Rightarrow> bool) \<Rightarrow> 'a list" where
  "sort_Slice pdqsort x lessf =
     (if length x \<le> 12 then insertionSort_func lessf x 0 (length x) else pdqsort lessf x)"

text \<open>
  For the proofs, the inner loop as a function on lists: \<open>insert_rev\<close> works on the
  part of the slice before index \<open>j\<close>, reversed, and moves the element \<open>x\<close> past
  every element that \<^verbatim>\<open>less\<close> puts it before, up to the first one that it does not.
  \<open>isort_rev\<close> inserts the elements of a list one after the other; its result is the
  sorted slice, reversed.
\<close>

fun insert_rev :: "('a \<Rightarrow> 'a \<Rightarrow> bool) \<Rightarrow> 'a \<Rightarrow> 'a list \<Rightarrow> 'a list" where
  "insert_rev lessf x [] = [x]"
| "insert_rev lessf x (y # ys) = (if lessf x y then y # insert_rev lessf x ys else x # y # ys)"

definition isort_rev :: "('a \<Rightarrow> 'a \<Rightarrow> bool) \<Rightarrow> 'a list \<Rightarrow> 'a list" where
  "isort_rev lessf xs = foldl (\<lambda>acc x. insert_rev lessf x acc) [] xs"

text \<open>
  What the library asks of \<^verbatim>\<open>less\<close> and what it gives. Its documentation asks for a
  transitive ordering: if \<^verbatim>\<open>less(i, j)\<close> and \<^verbatim>\<open>less(j, k)\<close> hold then \<^verbatim>\<open>less(i, k)\<close> holds,
  and if both fail then \<^verbatim>\<open>less(i, k)\<close> fails. A slice is in order when no element comes
  after one that must sort strictly before it, that is, for \<open>x\<close> before \<open>y\<close>,
  \<^verbatim>\<open>less(x, y)\<close> holds or \<^verbatim>\<open>less(y, x)\<close> fails. A sort meets the contract when its result
  is a permutation of the slice (it only swaps elements) and is in order for every
  transitive ordering. The contract says nothing on elements that compare equal:
  \<^verbatim>\<open>sort.Slice\<close> is not stable.
\<close>

definition transitive_ordering :: "('a \<Rightarrow> 'a \<Rightarrow> bool) \<Rightarrow> 'a set \<Rightarrow> bool" where
  "transitive_ordering lessf A \<longleftrightarrow>
     (\<forall>x\<in>A. \<forall>y\<in>A. \<forall>z\<in>A. lessf x y \<longrightarrow> lessf y z \<longrightarrow> lessf x z) \<and>
     (\<forall>x\<in>A. \<forall>y\<in>A. \<forall>z\<in>A. \<not> lessf x y \<longrightarrow> \<not> lessf y z \<longrightarrow> \<not> lessf x z)"

definition in_order :: "('a \<Rightarrow> 'a \<Rightarrow> bool) \<Rightarrow> 'a list \<Rightarrow> bool" where
  "in_order lessf xs \<longleftrightarrow> sorted_wrt (\<lambda>x y. lessf x y \<or> \<not> lessf y x) xs"

definition sort_contract :: "(('a \<Rightarrow> 'a \<Rightarrow> bool) \<Rightarrow> 'a list \<Rightarrow> 'a list) \<Rightarrow> bool" where
  "sort_contract srt \<longleftrightarrow>
     (\<forall>lessf xs. mset (srt lessf xs) = mset xs \<and>
        (transitive_ordering lessf (set xs) \<longrightarrow> in_order lessf (srt lessf xs)))"

text \<open>The comparison that \<^verbatim>\<open>run\<close> hands to \<^verbatim>\<open>sort.Slice\<close>.\<close>

definition row_less :: "bool \<Rightarrow> coveredFile \<Rightarrow> coveredFile \<Rightarrow> bool" where
  "row_less reverse ci cj =
     (if reverse then float_ge (percent ci) (percent cj)
      else float_lt (percent ci) (percent cj))"

declare insert_loop.simps [simp del]

section \<open>The run\<close>

text \<open>
  What the program takes from outside is collected in one record: the profile reader
  \<^verbatim>\<open>cover.ParseProfiles\<close>, the path functions of \<^verbatim>\<open>path\<close> and \<^verbatim>\<open>path/filepath\<close>, the run
  of \<^verbatim>\<open>go list -e -json\<close> on a list of packages (its standard output, or the error of
  the command with the text of its standard error), the JSON decoder on that output
  (the values \<^verbatim>\<open>dec.Decode\<close> yields one after the other, until the end of the input),
  \<^verbatim>\<open>parser.ParseFile\<close>, the rounding of \<^verbatim>\<open>float64\<close> arithmetic and the library's sort of
  long slices. A Go \<^verbatim>\<open>error\<close> is modelled by its message.
\<close>

type_synonym error = string

record Pkg =
  ImportPath :: string
  Dir :: string
  Error :: "string option"

text \<open>
  A \<^verbatim>\<open>map[string]*Pkg\<close>: a key is absent (\<open>None\<close>), or present with a \<^verbatim>\<open>nil\<close>
  pointer (\<open>Some None\<close>), or present with a package.
\<close>

type_synonym pkgs = "string \<rightharpoonup> Pkg option"

record world =
  ParseProfiles :: "string \<Rightarrow> error + Profile list"
  filepath_IsAbs :: "string \<Rightarrow> bool"
  path_Dir :: "string \<Rightarrow> string"
  path_Base :: "string \<Rightarrow> string"
  filepath_Join :: "string \<Rightarrow> string \<Rightarrow> string"
  go_list :: "string list \<Rightarrow> (error \<times> string) + string"
  json_Decode :: "string \<Rightarrow> (error + Pkg) list"
  ParseFile :: "string \<Rightarrow> error + Node"
  round64 :: "rat \<Rightarrow> rat"
  pdqsort_func :: "(coveredFile \<Rightarrow> coveredFile \<Rightarrow> bool) \<Rightarrow> coveredFile list \<Rightarrow> coveredFile list"

definition HasPrefix :: "string \<Rightarrow> string \<Rightarrow> bool" where
  "HasPrefix s pre \<longleftrightarrow> take (length pre) s = pre"

subsection \<open>\<^verbatim>\<open>findPkgs\<close> and \<^verbatim>\<open>findFile\<close>\<close>

fun findPkgs_list :: "world \<Rightarrow> Profile list \<Rightarrow> pkgs \<times> string list \<Rightarrow> pkgs \<times> string list" where
  "findPkgs_list w [] (pkgs, lst) = (pkgs, lst)"
| "findPkgs_list w (profile # profiles) (pkgs, lst) =
     (if HasPrefix (FileName profile) ''.'' \<or> filepath_IsAbs w (FileName profile)
      then findPkgs_list w profiles (pkgs, lst)
      else let pkg = path_Dir w (FileName profile) in
        if pkgs pkg = None
        then findPkgs_list w profiles (pkgs(pkg \<mapsto> None), lst @ [pkg])
        else findPkgs_list w profiles (pkgs, lst))"

fun decode_loop :: "(error + Pkg) list \<Rightarrow> pkgs \<Rightarrow> error + pkgs" where
  "decode_loop [] pkgs = Inr pkgs"
| "decode_loop (Inl err # rest) pkgs = Inl (''decoding go list json: '' @ err)"
| "decode_loop (Inr pkg # rest) pkgs = decode_loop rest (pkgs(ImportPath pkg \<mapsto> Some pkg))"

definition findPkgs :: "world \<Rightarrow> Profile list \<Rightarrow> error + pkgs" where
  "findPkgs w profiles =
     (case findPkgs_list w profiles (Map.empty, []) of (pkgs, lst) \<Rightarrow>
        if length lst = 0 then Inr pkgs
        else (case go_list w lst of
                Inl (err, stderr) \<Rightarrow> Inl (''cannot run go list: '' @ err @ [CHR 0x0A] @ stderr)
              | Inr stdout \<Rightarrow> decode_loop (json_Decode w stdout) pkgs))"

definition findFile :: "world \<Rightarrow> pkgs \<Rightarrow> string \<Rightarrow> error + string" where
  "findFile w pkgs file =
     (if HasPrefix file ''.'' \<or> filepath_IsAbs w file then Inr file
      else case pkgs (path_Dir w file) of
             Some (Some pkg) \<Rightarrow>
               if Dir pkg \<noteq> [] then Inr (filepath_Join w (Dir pkg) (path_Base w file))
               else (case Error pkg of
                       Some err \<Rightarrow> Inl err
                     | None \<Rightarrow> Inl (''did not find package for '' @ file @ '' in go list output''))
           | _ \<Rightarrow> Inl (''did not find package for '' @ file @ '' in go list output''))"

subsection \<open>\<^verbatim>\<open>test\<close>: the function extents of a file\<close>

definition test :: "world \<Rightarrow> string \<Rightarrow> error + FuncExtent list" where
  "test w file =
     (case ParseFile w file of
        Inl err \<Rightarrow> Inl err
      | Inr parsedFile \<Rightarrow> Inr (funcs (Walk \<lparr>funcs = []\<rparr> parsedFile)))"

subsection \<open>\<^verbatim>\<open>run\<close>\<close>

text \<open>
  The inner loop of \<^verbatim>\<open>run\<close> over the function extents of one file, on the four
  counters \<^verbatim>\<open>fileTotal\<close>, \<^verbatim>\<open>fileCovered\<close>, \<^verbatim>\<open>total\<close> and \<^verbatim>\<open>covered\<close>.
\<close>

fun funcs_loop :: "Profile \<Rightarrow> FuncExtent list \<Rightarrow> int64 \<times> int64 \<times> int64 \<times> int64 \<Rightarrow>
    int64 \<times> int64 \<times> int64 \<times> int64" where
  "funcs_loop profile [] (fileTotal, fileCovered, tot, covered) =
     (fileTotal, fileCovered, tot, covered)"
| "funcs_loop profile (f # fe) (fileTotal, fileCovered, tot, covered) =
     (case coverage f profile of (n, d) \<Rightarrow>
        funcs_loop profile fe (fileTotal + d, fileCovered + n, tot + d, covered + n))"

text \<open>
  The outer loop over the profiles, on \<^verbatim>\<open>total\<close>, \<^verbatim>\<open>covered\<close> and \<^verbatim>\<open>coverfiles\<close>. An
  error ends the run at once.
\<close>

fun profiles_loop :: "world \<Rightarrow> pkgs \<Rightarrow> Profile list \<Rightarrow> int64 \<times> int64 \<times> coveredFile list \<Rightarrow>
    error + (int64 \<times> int64 \<times> coveredFile list)" where
  "profiles_loop w dirs [] (tot, covered, coverfiles) = Inr (tot, covered, coverfiles)"
| "profiles_loop w dirs (profile # profiles) (tot, covered, coverfiles) =
     (case findFile w dirs (FileName profile) of
        Inl err \<Rightarrow> Inl err
      | Inr f \<Rightarrow>
          (case test w f of
             Inl err \<Rightarrow> Inl err
           | Inr fe \<Rightarrow>
               (case funcs_loop profile fe (0, 0, tot, covered) of
                  (fileTotal, fileCovered, tot', covered') \<Rightarrow>
                    profiles_loop w dirs profiles
                      (tot', covered',
                       coverfiles @
                         [\<lparr>filename = f,
                           percent = percent_of (round64 w) fileCovered fileTotal\<rparr>]))))"

text \<open>
  The report as the tab writer receives it: one row per file with its colour, then the
  total row (the empty row between them holds no data and is left out). A percentage is
  kept as the \<^verbatim>\<open>float64\<close> that is handed to the formatting. Nothing is written before
  the loop over the profiles has ended, so a failed run writes no row.
\<close>

record Report =
  rows :: "(Color \<times> string \<times> float64) list"
  total_row :: "Color \<times> float64"

definition run :: "world \<Rightarrow> string \<Rightarrow> bool \<Rightarrow> error + Report" where
  "run w file reverse =
     (case ParseProfiles w file of
        Inl err \<Rightarrow> Inl err
      | Inr profiles \<Rightarrow>
          (case findPkgs w profiles of
             Inl err \<Rightarrow> Inl err
           | Inr dirs \<Rightarrow>
               (case profiles_loop w dirs profiles (0, 0, []) of
                  Inl err \<Rightarrow> Inl err
                | Inr (tot, covered, coverfiles) \<Rightarrow>
                    let sorted = sort_Slice (pdqsort_func w) coverfiles (row_less reverse);
                        totalPercent = percent_of (round64 w) covered tot
                    in Inr \<lparr>rows = map (\<lambda>coverfile. (getColor (percent coverfile),
                                        filename coverfile, percent coverfile)) sorted,
                            total_row = (getColor totalPercent, totalPercent)\<rparr>)))"

subsection \<open>\<^verbatim>\<open>main\<close>\<close>

text \<open>
  The action of the command line application: \<^verbatim>\<open>c.Args().First()\<close> is the empty string
  when there is no argument.
\<close>

definition Action :: "world \<Rightarrow> bool \<Rightarrow> string list \<Rightarrow> error + Report" where
  "Action w reverse args =
     (let file = (case args of [] \<Rightarrow> [] | a # _ \<Rightarrow> a) in
      if file = [] then Inl ''please provide a coverage file''
      else run w file reverse)"

text \<open>
  \<^verbatim>\<open>app.Run\<close> of urfave/cli reads the command line. When it cannot (an unknown flag),
  it writes a usage message and the help text to standard output and returns the error.
  For \<^verbatim>\<open>--help\<close> it writes the help text and returns no error, without running the
  action. Otherwise it runs the action with the value of the flag and the arguments and
  returns the error of the action, since no error of this program carries an exit code.
  \<^verbatim>\<open>main\<close> prints the error that \<^verbatim>\<open>app.Run\<close> returns, and returns. A Go program whose
  \<^verbatim>\<open>main\<close> returns ends with exit status 0; \<^verbatim>\<open>main\<close> never calls \<^verbatim>\<open>os.Exit\<close>.
\<close>

datatype cmdline = UsageError string error | HelpShown string | Parsed bool "string list"

datatype printed = LibraryText string | ErrorLine string | ReportTable Report

record outcome =
  stdout :: "printed list"
  exit_status :: int

definition main :: "world \<Rightarrow> cmdline \<Rightarrow> outcome" where
  "main w cmdline =
     (case cmdline of
        UsageError usage err \<Rightarrow>
          \<lparr>stdout = [LibraryText usage, ErrorLine (''Error: '' @ err @ [CHR 0x0A])],
           exit_status = 0\<rparr>
      | HelpShown help \<Rightarrow> \<lparr>stdout = [LibraryText help], exit_status = 0\<rparr>
      | Parsed reverse args \<Rightarrow>
          (case Action w reverse args of
             Inl err \<Rightarrow>
               \<lparr>stdout = [ErrorLine (''Error: '' @ err @ [CHR 0x0A])], exit_status = 0\<rparr>
           | Inr report \<Rightarrow> \<lparr>stdout = [ReportTable report], exit_status = 0\<rparr>))"

text \<open>
  To state the sums of \<^verbatim>\<open>run\<close>: the function extents that \<^verbatim>\<open>run\<close> finds for the file of
  a profile, and the covered and total statement counts of that file, which are the
  \<^verbatim>\<open>int64\<close> sums of the pairs of its functions.
\<close>

definition file_extents :: "world \<Rightarrow> pkgs \<Rightarrow> Profile \<Rightarrow> FuncExtent list" where
  "file_extents w dirs profile =
     (case findFile w dirs (FileName profile) of
        Inl err \<Rightarrow> []
      | Inr f \<Rightarrow> (case test w f of Inl err \<Rightarrow> [] | Inr fe \<Rightarrow> fe))"

definition file_covered :: "world \<Rightarrow> pkgs \<Rightarrow> Profile \<Rightarrow> int64" where
  "file_covered w dirs profile =
     sum_list (map (\<lambda>f. fst (coverage f profile)) (file_extents w dirs profile))"

definition file_total :: "world \<Rightarrow> pkgs \<Rightarrow> Profile \<Rightarrow> int64" where
  "file_total w dirs profile =
     sum_list (map (\<lambda>f. snd (coverage f profile)) (file_extents w dirs profile))"

text \<open>
  The row of a file as \<^verbatim>\<open>run\<close> builds it before the sort: the path that \<^verbatim>\<open>findFile\<close>
  gives, the percentage of the counts of the file, and its colour. Rows are compared by
  their percentage: ascending, or descending with \<^verbatim>\<open>reverse\<close>.
\<close>

definition file_path :: "world \<Rightarrow> pkgs \<Rightarrow> Profile \<Rightarrow> string" where
  "file_path w dirs profile =
     (case findFile w dirs (FileName profile) of Inl err \<Rightarrow> [] | Inr f \<Rightarrow> f)"

definition file_percent :: "world \<Rightarrow> pkgs \<Rightarrow> Profile \<Rightarrow> float64" where
  "file_percent w dirs profile =
     percent_of (round64 w) (file_covered w dirs profile) (file_total w dirs profile)"

definition file_row :: "world \<Rightarrow> pkgs \<Rightarrow> Profile \<Rightarrow> Color \<times> string \<times> float64" where
  "file_row w dirs profile =
     (getColor (file_percent w dirs profile), file_path w dirs profile,
      file_percent w dirs profile)"

definition row_order ::
  "bool \<Rightarrow> Color \<times> string \<times> float64 \<Rightarrow> Color \<times> string \<times> float64 \<Rightarrow> bool" where
  "row_order reverse a b =
     (if reverse then float_ge (snd (snd a)) (snd (snd b))
      else float_le (snd (snd a)) (snd (snd b)))"

text \<open>
  The statement counts as numbers, without the wrap of \<^verbatim>\<open>int64\<close>: the loop of
  \<^verbatim>\<open>coverage\<close> on integers, the pair of a function with its total floored to 1, the sums
  of the pairs over the functions of a file, and \<^verbatim>\<open>100.0 * covered / total\<close> in
  \<^verbatim>\<open>float64\<close> arithmetic for two integers.
\<close>

fun coverage_int_loop :: "FuncExtent \<Rightarrow> ProfileBlock list \<Rightarrow> int \<times> int \<Rightarrow> int \<times> int" where
  "coverage_int_loop f [] (covered, tot) = (covered, tot)"
| "coverage_int_loop f (b # bs) (covered, tot) =
     (if past_end f b then (covered, tot)
      else if before_start f b then coverage_int_loop f bs (covered, tot)
      else coverage_int_loop f bs
             (if Count b > 0 then covered + NumStmt b else covered, tot + NumStmt b))"

definition coverage_int :: "FuncExtent \<Rightarrow> Profile \<Rightarrow> int \<times> int" where
  "coverage_int f profile =
     (case coverage_int_loop f (Blocks profile) (0, 0) of
        (covered, tot) \<Rightarrow> (covered, if tot = 0 then 1 else tot))"

definition file_covered_int :: "world \<Rightarrow> pkgs \<Rightarrow> Profile \<Rightarrow> int" where
  "file_covered_int w dirs profile =
     sum_list (map (\<lambda>f. fst (coverage_int f profile)) (file_extents w dirs profile))"

definition file_total_int :: "world \<Rightarrow> pkgs \<Rightarrow> Profile \<Rightarrow> int" where
  "file_total_int w dirs profile =
     sum_list (map (\<lambda>f. snd (coverage_int f profile)) (file_extents w dirs profile))"

definition percent_of_int :: "(rat \<Rightarrow> rat) \<Rightarrow> int \<Rightarrow> int \<Rightarrow> float64" where
  "percent_of_int rnd covered tot =
     float_div rnd (float_mul rnd 100 (rnd (of_int covered))) (rnd (of_int tot))"

section \<open>Example inputs\<close>

text \<open>
  A file with two functions: \<open>A\<close> with one block of 3 statements that ran 5 times,
  \<open>B\<close> with one block of 2 statements that never ran.
\<close>

definition extent_A :: FuncExtent where
  "extent_A = \<lparr>name = ''A'', startLine = 3, startCol = 1, endLine = 5, endCol = 2\<rparr>"

definition extent_B :: FuncExtent where
  "extent_B = \<lparr>name = ''B'', startLine = 7, startCol = 1, endLine = 9, endCol = 2\<rparr>"

definition block_A :: ProfileBlock where
  "block_A = \<lparr>StartLine = 3, StartCol = 10, EndLine = 5, EndCol = 2, NumStmt = 3, Count = 5\<rparr>"

definition block_B :: ProfileBlock where
  "block_B = \<lparr>StartLine = 7, StartCol = 10, EndLine = 9, EndCol = 2, NumStmt = 2, Count = 0\<rparr>"

definition profile_AB :: Profile where
  "profile_AB = \<lparr>FileName = ''./ab.go'', Mode = ''count'', Blocks = [block_A, block_B]\<rparr>"

text \<open>A block that ends exactly where \<open>A\<close> starts, and a profile that holds it.\<close>

definition block_before_A :: ProfileBlock where
  "block_before_A = \<lparr>StartLine = 1, StartCol = 1, EndLine = 3, EndCol = 1, NumStmt = 4, Count = 1\<rparr>"

definition profile_around_A :: Profile where
  "profile_around_A =
     \<lparr>FileName = ''./ab.go'', Mode = ''count'', Blocks = [block_before_A, block_B]\<rparr>"

text \<open>Two blocks of \<open>2\<^sup>6\<^sup>2\<close> statements each inside one function.\<close>

definition extent_F :: FuncExtent where
  "extent_F = \<lparr>name = ''F'', startLine = 3, startCol = 1, endLine = 9, endCol = 2\<rparr>"

definition block_F1 :: ProfileBlock where
  "block_F1 = \<lparr>StartLine = 3, StartCol = 10, EndLine = 5, EndCol = 3,
     NumStmt = 4611686018427387904, Count = 1\<rparr>"

definition block_F2 :: ProfileBlock where
  "block_F2 = \<lparr>StartLine = 5, StartCol = 3, EndLine = 9, EndCol = 2,
     NumStmt = 4611686018427387904, Count = 0\<rparr>"

definition profile_F :: Profile where
  "profile_F = \<lparr>FileName = ''./f.go'', Mode = ''count'', Blocks = [block_F1, block_F2]\<rparr>"

text \<open>
  A world in which no file exists, paths are those of Unix, arithmetic is exact and
  long slices are left as they are. The examples below change the files it holds; their
  file names start with a dot, so that no package is looked up, and their numbers are
  small, so that rounding does not change them.
\<close>

definition plain_world :: world where
  "plain_world =
     \<lparr>ParseProfiles = (\<lambda>file. Inl (''open '' @ file @ '': no such file or directory'')),
      filepath_IsAbs = (\<lambda>s. HasPrefix s ''/''),
      path_Dir = (\<lambda>s. ''.''),
      path_Base = (\<lambda>s. s),
      filepath_Join = (\<lambda>dir base. dir @ ''/'' @ base),
      go_list = (\<lambda>lst. Inl (''exit status 1'', [])),
      json_Decode = (\<lambda>out. []),
      ParseFile = (\<lambda>file. Inl (''open '' @ file @ '': no such file or directory'')),
      round64 = (\<lambda>x. x),
      pdqsort_func = (\<lambda>lessf x. x)\<rparr>"

text \<open>A file that declares one method, \<^verbatim>\<open>func (t T) String() string\<close>.\<close>

definition method_file :: Node where
  "method_file =
     File [FuncDecl (Some (OtherNode [])) ''String'' \<lparr>Line = 3, Column = 1\<rparr>
             \<lparr>Line = 5, Column = 2\<rparr> [OtherNode []]]"

definition method_world :: world where
  "method_world = plain_world\<lparr>ParseFile := (\<lambda>file. Inr method_file)\<rparr>"

text \<open>
  A profile of two files: \<^verbatim>\<open>./ab.go\<close> with the functions \<open>A\<close> (its body holds a
  function literal) and \<open>B\<close> from above, and \<^verbatim>\<open>./c.go\<close> with one function of 3
  statements that never ran.
\<close>

definition block_C :: ProfileBlock where
  "block_C = \<lparr>StartLine = 3, StartCol = 10, EndLine = 6, EndCol = 2, NumStmt = 3, Count = 0\<rparr>"

definition profile_C :: Profile where
  "profile_C = \<lparr>FileName = ''./c.go'', Mode = ''count'', Blocks = [block_C]\<rparr>"

definition file_AB :: Node where
  "file_AB =
     File [FuncDecl None ''A'' \<lparr>Line = 3, Column = 1\<rparr> \<lparr>Line = 5, Column = 2\<rparr>
             [OtherNode [FuncLit [OtherNode []]]],
           FuncDecl None ''B'' \<lparr>Line = 7, Column = 1\<rparr> \<lparr>Line = 9, Column = 2\<rparr>
             [OtherNode []]]"

definition file_C :: Node where
  "file_C =
     File [FuncDecl None ''C'' \<lparr>Line = 3, Column = 1\<rparr> \<lparr>Line = 6, Column = 2\<rparr>
             [OtherNode []]]"

definition two_files_world :: world where
  "two_files_world = plain_world
     \<lparr>ParseProfiles :=
        (\<lambda>file. if file = ''cover.out'' then Inr [profile_AB, profile_C]
                 else Inl (''open '' @ file @ '': no such file or directory'')),
      ParseFile :=
        (\<lambda>file. if file = ''./ab.go'' then Inr file_AB
                 else if file = ''./c.go'' then Inr file_C
                 else Inl (''open '' @ file @ '': no such file or directory''))\<rparr>"

text \<open>
  A file without any function declaration, \<^verbatim>\<open>var f = func() { ... }\<close>: the body of the
  literal is a block of the profile.
\<close>

definition block_V :: ProfileBlock where
  "block_V = \<lparr>StartLine = 3, StartCol = 20, EndLine = 3, EndCol = 32, NumStmt = 1, Count = 1\<rparr>"

definition profile_V :: Profile where
  "profile_V = \<lparr>FileName = ''./v.go'', Mode = ''count'', Blocks = [block_V]\<rparr>"

definition file_V :: Node where
  "file_V = File [OtherNode [FuncLit [OtherNode []]]]"

definition literal_world :: world where
  "literal_world = plain_world
     \<lparr>ParseProfiles := (\<lambda>file. Inr [profile_V]), ParseFile := (\<lambda>file. Inr file_V)\<rparr>"

text \<open>
  A profile of one file with one function of 16 statements, of which \<open>k\<close> ran; the
  tree of every such file is the one of \<^verbatim>\<open>./c.go\<close>. Two such files with 8 of 16
  statements each.
\<close>

definition profile_of :: "string \<Rightarrow> int \<Rightarrow> Profile" where
  "profile_of nm k =
     \<lparr>FileName = ''./'' @ nm @ ''.go'', Mode = ''count'',
      Blocks =
        [\<lparr>StartLine = 3, StartCol = 10, EndLine = 4, EndCol = 2, NumStmt = k, Count = 1\<rparr>,
         \<lparr>StartLine = 4, StartCol = 2, EndLine = 6, EndCol = 2, NumStmt = 16 - k, Count = 0\<rparr>]\<rparr>"

definition ties_world :: world where
  "ties_world = plain_world
     \<lparr>ParseProfiles := (\<lambda>file. Inr [profile_of ''t1'' 8, profile_of ''t2'' 8]),
      ParseFile := (\<lambda>file. Inr file_C)\<rparr>"

text \<open>
  Thirteen such files, with 0 to 12 statements that ran, in mixed order, and the rows of
  their report in ascending order. In their world the sort of long slices is the
  insertion sort on lists, which meets the contract.
\<close>

definition thirteen_profiles :: "Profile list" where
  "thirteen_profiles =
     [profile_of ''f'' 5, profile_of ''m'' 12, profile_of ''a'' 0, profile_of ''h'' 7,
      profile_of ''d'' 3, profile_of ''j'' 9, profile_of ''b'' 1, profile_of ''l'' 11,
      profile_of ''e'' 4, profile_of ''i'' 8, profile_of ''c'' 2, profile_of ''k'' 10,
      profile_of ''g'' 6]"

definition thirteen_rows :: "(Color \<times> string \<times> float64) list" where
  "thirteen_rows =
     [(Red, ''./a.go'', Finite 0), (Red, ''./b.go'', Finite (25 / 4)),
      (Red, ''./c.go'', Finite (25 / 2)), (Red, ''./d.go'', Finite (75 / 4)),
      (Red, ''./e.go'', Finite 25), (Yellow, ''./f.go'', Finite (125 / 4)),
      (Yellow, ''./g.go'', Finite (75 / 2)), (Yellow, ''./h.go'', Finite (175 / 4)),
      (Yellow, ''./i.go'', Finite 50), (Yellow, ''./j.go'', Finite (225 / 4)),
      (Yellow, ''./k.go'', Finite (125 / 2)), (Yellow, ''./l.go'', Finite (275 / 4)),
      (Green, ''./m.go'', Finite 75)]"

definition thirteen_world :: world where
  "thirteen_world = plain_world
     \<lparr>ParseProfiles := (\<lambda>file. Inr thirteen_profiles),
      ParseFile := (\<lambda>file. Inr file_C),
      pdqsort_func := (\<lambda>lessf xs. rev (isort_rev lessf xs))\<rparr>"

text \<open>
  Two files with one function each and one block of \<open>2\<^sup>6\<^sup>2\<close> statements: the block
  of the first file ran, the block of the second did not.
\<close>

definition block_G1 :: ProfileBlock where
  "block_G1 = \<lparr>StartLine = 3, StartCol = 10, EndLine = 6, EndCol = 2,
     NumStmt = 4611686018427387904, Count = 1\<rparr>"

definition block_G2 :: ProfileBlock where
  "block_G2 = \<lparr>StartLine = 3, StartCol = 10, EndLine = 6, EndCol = 2,
     NumStmt = 4611686018427387904, Count = 0\<rparr>"

definition profile_G1 :: Profile where
  "profile_G1 = \<lparr>FileName = ''./g1.go'', Mode = ''count'', Blocks = [block_G1]\<rparr>"

definition profile_G2 :: Profile where
  "profile_G2 = \<lparr>FileName = ''./g2.go'', Mode = ''count'', Blocks = [block_G2]\<rparr>"

definition wrap_world :: world where
  "wrap_world = plain_world
     \<lparr>ParseProfiles := (\<lambda>file. Inr [profile_G1, profile_G2]),
      ParseFile := (\<lambda>file. Inr file_C)\<rparr>"

text \<open>
  Three files: one whose 16 statements all ran, the file without function declarations
  from above, and one of whose 16 statements none ran.
\<close>

definition nan_world :: world where
  "nan_world = plain_world
     \<lparr>ParseProfiles := (\<lambda>file. Inr [profile_of ''hi'' 16, profile_V, profile_of ''lo'' 0]),
      ParseFile := (\<lambda>file. if file = ''./v.go'' then Inr file_V else Inr file_C)\<rparr>"

section \<open>The coverage of one function\<close>

subsection \<open>The early stop\<close>

lemma full_scan_loop_past_end:
  "\<forall>b\<in>set bs. past_end f b \<Longrightarrow> full_scan_loop f bs acc = acc"
  by (induction bs arbitrary: acc) (auto simp: overlaps_def)

lemma past_end_mono: "past_end f a \<Longrightarrow> start_le a b \<Longrightarrow> past_end f b"
  by (auto simp: past_end_def start_le_def)

lemma coverage_loop_full_scan:
  "sorted_wrt start_le bs \<Longrightarrow> coverage_loop f bs acc = full_scan_loop f bs acc"
proof (induction bs arbitrary: acc)
  case Nil
  show ?case by (cases acc) simp
next
  case (Cons b bs)
  obtain covered tot where acc: "acc = (covered, tot)" by (cases acc)
  show ?case
  proof (cases "past_end f b")
    case True
    with Cons.prems have "\<forall>b'\<in>set bs. past_end f b'"
      by (auto intro: past_end_mono)
    then have "full_scan_loop f bs acc = acc"
      by (rule full_scan_loop_past_end)
    with True show ?thesis
      by (simp add: acc overlaps_def)
  next
    case False
    with Cons show ?thesis
      by (simp add: acc overlaps_def)
  qed
qed

text \<open>
  Claim C1. When the blocks of the profile are in ascending order of their start (line,
  then column), the scan that stops at the first block starting at or after the end of
  the extent returns the same pair as the scan over all blocks that counts every block
  overlapping the extent. The order of the starts is all the proof needs; that the
  blocks do not overlap each other is not used.
\<close>

theorem coverage_early_stop_eq_full_scan:
  assumes "sorted_wrt start_le (Blocks profile)"
  shows "coverage f profile = full_scan_coverage f profile"
  using assms by (simp add: coverage_def full_scan_coverage_def coverage_loop_full_scan)

theorem coverage_early_stop_eq_full_scan_witness:
  "sorted_wrt start_le (Blocks profile_AB) \<and>
   coverage extent_A profile_AB = full_scan_coverage extent_A profile_AB \<and>
   coverage extent_A profile_AB = (3, 3)"
proof -
  have sorted: "sorted_wrt start_le (Blocks profile_AB)"
    by (simp add: profile_AB_def block_A_def block_B_def start_le_def)
  have "coverage extent_A profile_AB = (3, 3)"
    by (simp add: extent_A_def profile_AB_def block_A_def block_B_def coverage_def
        past_end_def before_start_def)
  with sorted coverage_early_stop_eq_full_scan [OF sorted, of extent_A] show ?thesis
    by simp
qed

subsection \<open>Blocks at the start of the function\<close>

lemma coverage_loop_total:
  "snd (coverage_loop f bs (covered, tot)) = tot + snd (coverage_loop f bs (0, 0))"
proof (induction bs arbitrary: covered tot)
  case Nil
  show ?case by simp
next
  case (Cons b bs)
  let ?n = "word_of_int (NumStmt b) :: int64"
  have step: "snd (coverage_loop f bs (c, tot + ?n)) = tot + snd (coverage_loop f bs (c', ?n))"
    for c c'
    using Cons.IH [of c "tot + ?n"] Cons.IH [of c' ?n] by (simp add: add.assoc)
  show ?case
    using step Cons.IH [of covered tot] by simp
qed

lemma coverage_loop_shift_total:
  "snd (coverage_loop f bs (covered, tot + n)) = snd (coverage_loop f bs (covered', tot)) + n"
  using coverage_loop_total [of f bs covered "tot + n"] coverage_loop_total [of f bs covered' tot]
  by (simp add: add.assoc add.commute)

text \<open>
  Claim C2. A block whose end is exactly the start of the extent adds nothing: the loop
  either stops at it (when it also starts at or after the end of the extent) or goes on
  with both counters unchanged. The same block with its end one column later, when it
  does not start at or after the end of the extent, is counted: the total of the scan is
  the total without the block plus the statement count of the block.
\<close>

theorem coverage_boundary_block:
  assumes "EndLine b = startLine f" and "EndCol b = startCol f"
  shows "coverage_loop f (b # bs) (covered, tot) =
           (if past_end f b then (covered, tot) else coverage_loop f bs (covered, tot)) \<and>
         (\<not> past_end f b \<longrightarrow>
            snd (coverage_loop f (b\<lparr>EndCol := startCol f + 1\<rparr> # bs) (covered, tot)) =
              snd (coverage_loop f bs (covered, tot)) + word_of_int (NumStmt b))"
  using assms
  by (auto simp: before_start_def past_end_def coverage_loop_shift_total)

theorem coverage_boundary_block_witness:
  "EndLine block_before_A = startLine extent_A \<and> EndCol block_before_A = startCol extent_A \<and>
   \<not> past_end extent_A block_before_A \<and>
   coverage_loop extent_A (block_before_A # [block_A]) (0, 0) =
     coverage_loop extent_A [block_A] (0, 0) \<and>
   snd (coverage_loop extent_A (block_before_A\<lparr>EndCol := startCol extent_A + 1\<rparr> # [block_A]) (0, 0)) =
     snd (coverage_loop extent_A [block_A] (0, 0)) + 4"
proof -
  have h: "EndLine block_before_A = startLine extent_A" "EndCol block_before_A = startCol extent_A"
    and n: "\<not> past_end extent_A block_before_A"
    by (simp_all add: extent_A_def block_before_A_def past_end_def)
  have "word_of_int (NumStmt block_before_A) = (4 :: int64)"
    by (simp add: block_before_A_def)
  with h n coverage_boundary_block [OF h, of "[block_A]" 0 0] show ?thesis
    by simp
qed

subsection \<open>No block in the function\<close>

lemma coverage_loop_no_overlap:
  "\<forall>b\<in>set bs. \<not> overlaps f b \<Longrightarrow> coverage_loop f bs acc = acc"
  by (induction bs arbitrary: acc) (auto simp: overlaps_def)

text \<open>
  Claim C4. When no block of the profile overlaps the extent, the function counts as 0
  covered statements of 1: the denominator is never zero.
\<close>

theorem coverage_no_overlap:
  assumes "\<forall>b\<in>set (Blocks profile). \<not> overlaps f b"
  shows "coverage f profile = (0, 1)"
  using assms by (simp add: coverage_def coverage_loop_no_overlap)

theorem coverage_no_overlap_witness:
  "Blocks profile_around_A = [block_before_A, block_B] \<and>
   \<not> overlaps extent_A block_before_A \<and> \<not> overlaps extent_A block_B \<and>
   coverage extent_A profile_around_A = (0, 1)"
proof -
  have blocks: "Blocks profile_around_A = [block_before_A, block_B]"
    by (simp add: profile_around_A_def)
  have no: "\<not> overlaps extent_A block_before_A" "\<not> overlaps extent_A block_B"
    by (simp_all add: extent_A_def block_before_A_def block_B_def
        overlaps_def past_end_def before_start_def)
  then have h: "\<forall>b\<in>set (Blocks profile_around_A). \<not> overlaps extent_A b"
    by (simp add: blocks)
  from blocks no coverage_no_overlap [OF h] show ?thesis
    by simp
qed

subsection \<open>Bounds of the pair\<close>

lemma coverage_loop_int:
  assumes "\<forall>b\<in>set bs. 0 \<le> NumStmt b" "0 \<le> c" "c \<le> t"
  shows "\<exists>c' t'. coverage_loop f bs (word_of_int c, word_of_int t) = (word_of_int c', word_of_int t')
           \<and> 0 \<le> c' \<and> c' \<le> t' \<and> t \<le> t' \<and> t' \<le> t + sum_list (map NumStmt bs)"
  using assms
proof (induction bs arbitrary: c t)
  case Nil
  then show ?case by auto
next
  case (Cons b bs)
  have nn: "0 \<le> NumStmt b" "\<forall>b\<in>set bs. 0 \<le> NumStmt b" "0 \<le> sum_list (map NumStmt bs)"
    using Cons.prems(1) by (auto intro!: sum_list_nonneg)
  consider (stop) "past_end f b" | (skip) "\<not> past_end f b" "before_start f b"
    | (hit) "\<not> past_end f b" "\<not> before_start f b" "Count b > 0"
    | (miss) "\<not> past_end f b" "\<not> before_start f b" "\<not> Count b > 0"
    by blast
  then show ?case
  proof cases
    case stop
    then show ?thesis using Cons.prems nn
      by (intro exI [of _ c] exI [of _ t]) simp
  next
    case skip
    from Cons.IH [OF nn(2) Cons.prems(2,3)] obtain c' t' where
      "coverage_loop f bs (word_of_int c, word_of_int t) = (word_of_int c', word_of_int t')"
      "0 \<le> c'" "c' \<le> t'" "t \<le> t'" "t' \<le> t + sum_list (map NumStmt bs)" by blast
    with skip nn show ?thesis
      by (intro exI [of _ c'] exI [of _ t']) simp
  next
    case hit
    have "0 \<le> c + NumStmt b" "c + NumStmt b \<le> t + NumStmt b" using Cons.prems nn by auto
    from Cons.IH [OF nn(2) this] obtain c' t' where
      "coverage_loop f bs (word_of_int (c + NumStmt b), word_of_int (t + NumStmt b)) =
         (word_of_int c', word_of_int t')"
      "0 \<le> c'" "c' \<le> t'" "t + NumStmt b \<le> t'"
      "t' \<le> t + NumStmt b + sum_list (map NumStmt bs)" by blast
    with hit nn show ?thesis
      by (intro exI [of _ c'] exI [of _ t']) simp
  next
    case miss
    have "0 \<le> c" "c \<le> t + NumStmt b" using Cons.prems nn by auto
    from Cons.IH [OF nn(2) this] obtain c' t' where
      "coverage_loop f bs (word_of_int c, word_of_int (t + NumStmt b)) =
         (word_of_int c', word_of_int t')"
      "0 \<le> c'" "c' \<le> t'" "t + NumStmt b \<le> t'"
      "t' \<le> t + NumStmt b + sum_list (map NumStmt bs)" by blast
    with miss nn show ?thesis
      by (intro exI [of _ c'] exI [of _ t']) simp
  qed
qed

lemma sint_word_of_int_small:
  "0 \<le> x \<Longrightarrow> x < 2 ^ 63 \<Longrightarrow> sint (word_of_int x :: int64) = x"
  by (simp add: sint_sbintrunc' signed_take_bit_int_eq_self)

text \<open>
  Claim C10 as stated fails: the counters are \<^verbatim>\<open>int64\<close> and their sums wrap. With two
  blocks of \<open>2\<^sup>6\<^sup>2\<close> statements in the function, of which only the first ran, the total
  wraps to \<open>- 2\<^sup>6\<^sup>3\<close> and is below the covered count \<open>2\<^sup>6\<^sup>2\<close>.
\<close>

theorem coverage_bounds_overflow_counterexample:
  "Blocks profile_F = [block_F1, block_F2] \<and> 0 \<le> NumStmt block_F1 \<and> 0 \<le> NumStmt block_F2 \<and>
   sint (fst (coverage extent_F profile_F)) = 4611686018427387904 \<and>
   sint (snd (coverage extent_F profile_F)) = - 9223372036854775808 \<and>
   \<not> sint (fst (coverage extent_F profile_F)) \<le> sint (snd (coverage extent_F profile_F)) \<and>
   \<not> 1 \<le> sint (snd (coverage extent_F profile_F))"
  by (simp add: extent_F_def profile_F_def block_F1_def block_F2_def coverage_def
      past_end_def before_start_def)

text \<open>
  Claim C10, amended. When no block has a negative statement count and the statement
  counts of the blocks of the profile sum to less than \<open>2\<^sup>6\<^sup>3\<close>, the pair satisfies
  \<open>0 \<le> covered \<le> total\<close> and \<open>1 \<le> total\<close>.
\<close>

theorem coverage_bounds_no_overflow:
  assumes "\<forall>b\<in>set (Blocks profile). 0 \<le> NumStmt b"
    and "sum_list (map NumStmt (Blocks profile)) < 2 ^ 63"
  shows "0 \<le> sint (fst (coverage f profile)) \<and>
         sint (fst (coverage f profile)) \<le> sint (snd (coverage f profile)) \<and>
         1 \<le> sint (snd (coverage f profile))"
proof -
  from coverage_loop_int [OF assms(1), of 0 0 f] obtain c' t' where
    loop: "coverage_loop f (Blocks profile) (0, 0) = (word_of_int c', word_of_int t')"
    and b: "0 \<le> c'" "c' \<le> t'" "t' \<le> sum_list (map NumStmt (Blocks profile))"
    by auto
  have c: "sint (word_of_int c' :: int64) = c'" and t: "sint (word_of_int t' :: int64) = t'"
    using b assms(2) by (auto intro!: sint_word_of_int_small)
  show ?thesis
  proof (cases "t' = 0")
    case True
    with b have "c' = 0" by simp
    with True loop show ?thesis by (simp add: coverage_def)
  next
    case False
    then have "word_of_int t' \<noteq> (0 :: int64)"
      using t by (metis sint_0)
    with loop c t b False show ?thesis by (simp add: coverage_def)
  qed
qed

theorem coverage_bounds_no_overflow_witness:
  "Blocks profile_AB = [block_A, block_B] \<and> 0 \<le> NumStmt block_A \<and> 0 \<le> NumStmt block_B \<and>
   sum_list (map NumStmt (Blocks profile_AB)) < 2 ^ 63 \<and>
   0 \<le> sint (fst (coverage extent_B profile_AB)) \<and>
   sint (fst (coverage extent_B profile_AB)) \<le> sint (snd (coverage extent_B profile_AB)) \<and>
   1 \<le> sint (snd (coverage extent_B profile_AB))"
proof -
  have blocks: "Blocks profile_AB = [block_A, block_B]"
    and nn: "0 \<le> NumStmt block_A" "0 \<le> NumStmt block_B"
    by (simp_all add: profile_AB_def block_A_def block_B_def)
  have h1: "\<forall>b\<in>set (Blocks profile_AB). 0 \<le> NumStmt b"
    using nn by (simp add: blocks)
  have h2: "sum_list (map NumStmt (Blocks profile_AB)) < 2 ^ 63"
    by (simp add: profile_AB_def block_A_def block_B_def)
  from blocks nn h2 coverage_bounds_no_overflow [OF h1 h2, of extent_B] show ?thesis
    by simp
qed

section \<open>The function extents of a file\<close>

lemma Visit_funcs:
  "funcs (Visit v node) =
     funcs v @ (case node of None \<Rightarrow> [] | Some n \<Rightarrow> List.map_filter decl_extent [n])"
  by (cases node; cases "the node")
     (auto simp: Visit_def List.map_filter_def split: option.splits Node.splits)

lemma map_filter_append:
  "List.map_filter f (xs @ ys) = List.map_filter f xs @ List.map_filter f ys"
  by (simp add: List.map_filter_def)

lemma Walk_funcs:
  "funcs (Walk v n) = funcs v @ List.map_filter decl_extent (preorder n)"
  "funcs (WalkOpt v r) = funcs v @ List.map_filter decl_extent (preorder_opt r)"
  "funcs (WalkList v ns) = funcs v @ List.map_filter decl_extent (preorder_list ns)"
  by (induction v n and v r and v ns rule: Walk_WalkOpt_WalkList.induct)
     (simp_all add: Visit_funcs map_filter_append List.map_filter_simps)

text \<open>
  Claim C3 as stated fails: a method declaration is an \<^verbatim>\<open>*ast.FuncDecl\<close> too, and the
  visitor does not look at the receiver. For a file whose only declaration is a method,
  the extractor returns the extent of that method.
\<close>

theorem test_collects_methods_counterexample:
  "ParseFile method_world ''./m.go'' =
     Inr (File [FuncDecl (Some (OtherNode [])) ''String'' \<lparr>Line = 3, Column = 1\<rparr>
                  \<lparr>Line = 5, Column = 2\<rparr> [OtherNode []]]) \<and>
   test method_world ''./m.go'' =
     Inr [\<lparr>name = ''String'', startLine = 3, startCol = 1, endLine = 5, endCol = 2\<rparr>]"
  by (simp add: test_def method_world_def plain_world_def method_file_def Visit_def)

text \<open>
  Claim C3, amended. For a file that parses, the extractor returns the extents of
  exactly the function declaration nodes of the tree, in the order of the walk: the
  functions and the methods. A function literal is never collected.
\<close>

theorem test_collects_func_decls:
  assumes "ParseFile w file = Inr parsedFile"
  shows "test w file = Inr (List.map_filter decl_extent (preorder parsedFile))"
  using assms by (simp add: test_def Walk_funcs)

theorem test_collects_func_decls_witness:
  "ParseFile two_files_world ''./ab.go'' = Inr file_AB \<and>
   test two_files_world ''./ab.go'' = Inr [extent_A, extent_B]"
proof -
  have h: "ParseFile two_files_world ''./ab.go'' = Inr file_AB"
    by (simp add: two_files_world_def plain_world_def)
  have "List.map_filter decl_extent (preorder file_AB) = [extent_A, extent_B]"
    by (simp add: file_AB_def List.map_filter_simps extent_A_def extent_B_def)
  with h test_collects_func_decls [OF h] show ?thesis
    by simp
qed

section \<open>The sort\<close>

subsection \<open>The insertion sort as a function on lists\<close>

lemma insert_loop_eq:
  "j < length xs \<Longrightarrow>
   insert_loop lessf xs 0 j =
     rev (insert_rev lessf (xs ! j) (rev (take j xs))) @ drop (Suc j) xs"
proof (induction j arbitrary: xs)
  case 0
  then have "xs ! 0 # drop (Suc 0) xs = xs"
    by (cases xs) simp_all
  then show ?case
    by (simp add: insert_loop.simps)
next
  case (Suc k)
  let ?x = "xs ! Suc k" and ?y = "xs ! k"
  from Suc.prems have k: "k < length xs" by simp
  have tk: "take (Suc k) xs = take k xs @ [?y]"
    using k by (simp add: take_Suc_conv_app_nth)
  show ?case
  proof (cases "lessf ?x ?y")
    case True
    let ?xs' = "xs[Suc k := ?y, k := ?x]"
    have "insert_loop lessf xs 0 (Suc k) = insert_loop lessf ?xs' 0 k"
      using True by (subst insert_loop.simps) simp
    also have "\<dots> = rev (insert_rev lessf (?xs' ! k) (rev (take k ?xs'))) @ drop (Suc k) ?xs'"
      using k by (intro Suc.IH) simp
    also have "?xs' ! k = ?x"
      using k by simp
    also have "take k ?xs' = take k xs"
      by simp
    also have "drop (Suc k) ?xs' = ?y # drop (Suc (Suc k)) xs"
    proof -
      have "drop (Suc k) ?xs' = drop (Suc k) (xs[Suc k := ?y])"
        by (simp add: drop_update_cancel)
      also have "\<dots> = (xs[Suc k := ?y]) ! Suc k # drop (Suc (Suc k)) (xs[Suc k := ?y])"
        by (rule Cons_nth_drop_Suc [symmetric]) (use Suc.prems in simp)
      also have "\<dots> = ?y # drop (Suc (Suc k)) xs"
        using Suc.prems by simp
      finally show ?thesis .
    qed
    finally show ?thesis
      using True by (simp add: tk)
  next
    case False
    have "take k xs @ ?y # ?x # drop (Suc (Suc k)) xs = xs"
      using Suc.prems k by (metis Cons_nth_drop_Suc append_take_drop_id)
    with False show ?thesis
      by (subst insert_loop.simps) (simp add: tk)
  qed
qed

lemma isort_rev_snoc: "isort_rev lessf (xs @ [x]) = insert_rev lessf x (isort_rev lessf xs)"
  by (simp add: isort_rev_def)

lemma set_insert_rev: "set (insert_rev lessf x ys) = insert x (set ys)"
  by (induction ys) auto

lemma mset_insert_rev: "mset (insert_rev lessf x ys) = add_mset x (mset ys)"
  by (induction ys) simp_all

lemma mset_isort_rev: "mset (isort_rev lessf xs) = mset xs"
proof (induction xs rule: rev_induct)
  case Nil
  show ?case by (simp add: isort_rev_def)
next
  case (snoc x xs)
  then show ?case by (simp add: isort_rev_snoc mset_insert_rev)
qed

lemma set_isort_rev: "set (isort_rev lessf xs) = set xs"
  using mset_isort_rev [of lessf xs] by (metis set_mset_mset)

lemma length_isort_rev: "length (isort_rev lessf xs) = length xs"
  using mset_isort_rev [of lessf xs] by (metis size_mset)

lemma outer_loop_eq:
  "n < length xs \<Longrightarrow>
   foldl (\<lambda>data i. insert_loop lessf data 0 i) xs [Suc 0 ..< Suc n] =
     rev (isort_rev lessf (take (Suc n) xs)) @ drop (Suc n) xs"
proof (induction n)
  case 0
  then have "xs ! 0 # drop (Suc 0) xs = xs" "take (Suc 0) xs = [xs ! 0]"
    by (cases xs; simp)+
  then show ?case
    by (simp add: isort_rev_def)
next
  case (Suc n)
  let ?d = "rev (isort_rev lessf (take (Suc n) xs)) @ drop (Suc n) xs"
  have len: "length (rev (isort_rev lessf (take (Suc n) xs))) = Suc n"
    using Suc.prems by (simp add: length_isort_rev)
  have d_len: "length ?d = length xs"
    using Suc.prems by (simp add: length_isort_rev)
  have d_nth: "?d ! Suc n = xs ! Suc n"
    using Suc.prems len by (simp add: nth_append)
  have d_take: "take (Suc n) ?d = rev (isort_rev lessf (take (Suc n) xs))"
    using len by simp
  have d_drop: "drop (Suc (Suc n)) ?d = drop (Suc (Suc n)) xs"
    using len by simp
  have "foldl (\<lambda>data i. insert_loop lessf data 0 i) xs [Suc 0 ..< Suc (Suc n)] =
        insert_loop lessf ?d 0 (Suc n)"
    using Suc by simp
  also have "\<dots> =
      rev (insert_rev lessf (?d ! Suc n) (rev (take (Suc n) ?d))) @ drop (Suc (Suc n)) ?d"
    using Suc.prems by (intro insert_loop_eq) (simp only: d_len)
  also have "\<dots> =
      rev (insert_rev lessf (xs ! Suc n) (isort_rev lessf (take (Suc n) xs))) @
      drop (Suc (Suc n)) xs"
    by (simp only: d_nth d_take d_drop rev_rev_ident)
  also have "insert_rev lessf (xs ! Suc n) (isort_rev lessf (take (Suc n) xs)) =
             isort_rev lessf (take (Suc (Suc n)) xs)"
    using Suc.prems by (simp add: take_Suc_conv_app_nth [of "Suc n"] isort_rev_snoc)
  finally show ?case .
qed

lemma insertionSort_func_eq:
  "insertionSort_func lessf xs 0 (length xs) = rev (isort_rev lessf xs)"
proof (cases xs)
  case Nil
  then show ?thesis by (simp add: insertionSort_func_def isort_rev_def)
next
  case (Cons x xs')
  then have "length xs = Suc (length xs')" "length xs' < length xs" by simp_all
  then show ?thesis
    using outer_loop_eq [of "length xs'" xs lessf]
    by (simp add: insertionSort_func_def)
qed

lemma sort_Slice_short:
  "length x \<le> 12 \<Longrightarrow> sort_Slice pdqsort x lessf = rev (isort_rev lessf x)"
  by (simp add: sort_Slice_def insertionSort_func_eq)

subsection \<open>Order\<close>

text \<open>
  The comparison \<open>lessf\<close> is measured against an order \<open>T\<close> on a set \<open>A\<close> of
  elements: \<open>lessf x y\<close> gives \<open>T x y\<close>, and its failure gives \<open>T y x\<close>.
\<close>

lemma sorted_insert_rev:
  assumes lt: "\<forall>x\<in>A. \<forall>y\<in>A. lessf x y \<longrightarrow> T x y"
    and ge: "\<forall>x\<in>A. \<forall>y\<in>A. \<not> lessf x y \<longrightarrow> T y x"
    and trans: "\<forall>x\<in>A. \<forall>y\<in>A. \<forall>z\<in>A. T x y \<longrightarrow> T y z \<longrightarrow> T x z"
    and x: "x \<in> A"
  shows "set ys \<subseteq> A \<Longrightarrow> sorted_wrt (\<lambda>a b. T b a) ys \<Longrightarrow>
         sorted_wrt (\<lambda>a b. T b a) (insert_rev lessf x ys)"
proof (induction ys)
  case Nil
  show ?case by simp
next
  case (Cons y ys)
  from Cons.prems have y: "y \<in> A" and ys: "set ys \<subseteq> A"
    and sorted: "sorted_wrt (\<lambda>a b. T b a) ys" and below: "\<forall>z\<in>set ys. T z y"
    by simp_all
  show ?case
  proof (cases "lessf x y")
    case True
    then have "T x y"
      using lt x y by blast
    moreover have "sorted_wrt (\<lambda>a b. T b a) (insert_rev lessf x ys)"
      using ys sorted by (rule Cons.IH)
    ultimately show ?thesis
      using True below by (simp add: set_insert_rev)
  next
    case False
    then have yx: "T y x"
      using ge x y by blast
    have "T z x" if "z \<in> set ys" for z
    proof -
      from that ys have "z \<in> A" by blast
      moreover from that below have "T z y" by blast
      ultimately show ?thesis
        using trans y x yx by blast
    qed
    with False yx sorted below show ?thesis
      by simp
  qed
qed

lemma sorted_isort_rev:
  assumes lt: "\<forall>x\<in>A. \<forall>y\<in>A. lessf x y \<longrightarrow> T x y"
    and ge: "\<forall>x\<in>A. \<forall>y\<in>A. \<not> lessf x y \<longrightarrow> T y x"
    and trans: "\<forall>x\<in>A. \<forall>y\<in>A. \<forall>z\<in>A. T x y \<longrightarrow> T y z \<longrightarrow> T x z"
  shows "set xs \<subseteq> A \<Longrightarrow> sorted_wrt (\<lambda>a b. T b a) (isort_rev lessf xs)"
proof (induction xs rule: rev_induct)
  case Nil
  show ?case by (simp add: isort_rev_def)
next
  case (snoc x xs)
  from snoc.prems have x: "x \<in> A" and xs: "set xs \<subseteq> A"
    by simp_all
  have "sorted_wrt (\<lambda>a b. T b a) (isort_rev lessf xs)"
    using xs by (rule snoc.IH)
  moreover have "set (isort_rev lessf xs) \<subseteq> A"
    using xs by (simp add: set_isort_rev)
  ultimately have "sorted_wrt (\<lambda>a b. T b a) (insert_rev lessf x (isort_rev lessf xs))"
    using sorted_insert_rev [OF lt ge trans x] by blast
  then show ?case
    by (simp add: isort_rev_snoc)
qed

subsection \<open>The contract of the sort\<close>

text \<open>
  The insertion sort meets the contract of the library, so \<^verbatim>\<open>sort.Slice\<close> meets it on
  slices of at most 12 elements, and on longer slices when the sort of long slices
  does.
\<close>

lemma transitive_ordering_trans:
  assumes "transitive_ordering lessf A" "x \<in> A" "y \<in> A" "z \<in> A"
    and "lessf x y \<or> \<not> lessf y x" "lessf y z \<or> \<not> lessf z y"
  shows "lessf x z \<or> \<not> lessf z x"
  using assms unfolding transitive_ordering_def by meson

lemma isort_rev_in_order:
  assumes "transitive_ordering lessf (set xs)"
  shows "in_order lessf (rev (isort_rev lessf xs))"
proof -
  let ?T = "\<lambda>x y. lessf x y \<or> \<not> lessf y x"
  have lt: "\<forall>x\<in>set xs. \<forall>y\<in>set xs. lessf x y \<longrightarrow> ?T x y"
    by blast
  have ge: "\<forall>x\<in>set xs. \<forall>y\<in>set xs. \<not> lessf x y \<longrightarrow> ?T y x"
    by blast
  have trans: "\<forall>x\<in>set xs. \<forall>y\<in>set xs. \<forall>z\<in>set xs. ?T x y \<longrightarrow> ?T y z \<longrightarrow> ?T x z"
    using transitive_ordering_trans [OF assms] by blast
  have "sorted_wrt (\<lambda>a b. ?T b a) (isort_rev lessf xs)"
    using lt ge trans subset_refl by (rule sorted_isort_rev)
  then show ?thesis
    by (simp add: in_order_def sorted_wrt_rev)
qed

lemma isort_rev_contract: "sort_contract (\<lambda>lessf xs. rev (isort_rev lessf xs))"
  by (simp add: sort_contract_def mset_isort_rev isort_rev_in_order)

lemma sort_Slice_contract:
  assumes "12 < length xs \<longrightarrow> sort_contract pdqsort"
  shows "mset (sort_Slice pdqsort xs lessf) = mset xs"
    and "transitive_ordering lessf (set xs) \<Longrightarrow> in_order lessf (sort_Slice pdqsort xs lessf)"
proof -
  show "mset (sort_Slice pdqsort xs lessf) = mset xs"
  proof (cases "length xs \<le> 12")
    case True
    then show ?thesis by (simp add: sort_Slice_short mset_isort_rev)
  next
    case False
    with assms have "sort_contract pdqsort" by simp
    with False show ?thesis by (simp add: sort_Slice_def sort_contract_def)
  qed
  show "in_order lessf (sort_Slice pdqsort xs lessf)" if "transitive_ordering lessf (set xs)"
  proof (cases "length xs \<le> 12")
    case True
    with that show ?thesis by (simp add: sort_Slice_short isort_rev_in_order)
  next
    case False
    with assms have "sort_contract pdqsort" by simp
    with False that show ?thesis by (simp add: sort_Slice_def sort_contract_def)
  qed
qed

subsection \<open>The comparison of the rows\<close>

text \<open>
  On rows whose percentage is a number, the comparison of \<^verbatim>\<open>run\<close> is a transitive
  ordering, and a slice that is in order for it is in ascending order of percentage, or
  in descending order with \<^verbatim>\<open>reverse\<close>.
\<close>

lemma float_le_trans: "float_le a b \<Longrightarrow> float_le b c \<Longrightarrow> float_le a c"
  by (cases a; cases b; cases c) auto

lemma float_lt_le: "float_lt a b \<Longrightarrow> float_le a b"
  by (cases a; cases b) auto

lemma float_not_lt: "a \<noteq> NaN \<Longrightarrow> b \<noteq> NaN \<Longrightarrow> \<not> float_lt a b \<Longrightarrow> float_le b a"
  by (cases a; cases b) auto

lemma float_not_le: "a \<noteq> NaN \<Longrightarrow> b \<noteq> NaN \<Longrightarrow> \<not> float_le a b \<Longrightarrow> float_le b a"
  by (cases a; cases b) auto

lemma float_lt_trans: "float_lt a b \<Longrightarrow> float_lt b c \<Longrightarrow> float_lt a c"
  by (cases a; cases b; cases c) auto

lemma float_lt_iff_not_le: "a \<noteq> NaN \<Longrightarrow> b \<noteq> NaN \<Longrightarrow> float_lt a b \<longleftrightarrow> \<not> float_le b a"
  by (cases a; cases b) auto

lemma row_less_trans:
  assumes "row_less reverse x y" "row_less reverse y z"
  shows "row_less reverse x z"
proof (cases reverse)
  case True
  with assms have "float_le (percent z) (percent y)" "float_le (percent y) (percent x)"
    by (simp_all add: row_less_def float_ge_def)
  then have "float_le (percent z) (percent x)"
    by (rule float_le_trans)
  with True show ?thesis
    by (simp add: row_less_def float_ge_def)
next
  case False
  with assms have "float_lt (percent x) (percent y)" "float_lt (percent y) (percent z)"
    by (simp_all add: row_less_def)
  then have "float_lt (percent x) (percent z)"
    by (rule float_lt_trans)
  with False show ?thesis
    by (simp add: row_less_def)
qed

lemma row_less_negative_trans:
  assumes nan: "percent x \<noteq> NaN" "percent y \<noteq> NaN" "percent z \<noteq> NaN"
    and "\<not> row_less reverse x y" "\<not> row_less reverse y z"
  shows "\<not> row_less reverse x z"
proof (cases reverse)
  case True
  with assms have "float_lt (percent x) (percent y)" "float_lt (percent y) (percent z)"
    by (simp_all add: row_less_def float_ge_def float_lt_iff_not_le)
  then have "float_lt (percent x) (percent z)"
    by (rule float_lt_trans)
  with True nan show ?thesis
    by (simp add: row_less_def float_ge_def float_lt_iff_not_le)
next
  case False
  with assms have "float_le (percent z) (percent y)" "float_le (percent y) (percent x)"
    by (simp_all add: row_less_def float_lt_iff_not_le)
  then have "float_le (percent z) (percent x)"
    by (rule float_le_trans)
  with False nan show ?thesis
    by (simp add: row_less_def float_lt_iff_not_le)
qed

lemma row_less_transitive_ordering:
  assumes "\<forall>c\<in>A. percent c \<noteq> NaN"
  shows "transitive_ordering (row_less reverse) A"
  unfolding transitive_ordering_def
proof (intro conjI ballI impI)
  fix x y z
  assume "row_less reverse x y" "row_less reverse y z"
  then show "row_less reverse x z"
    by (rule row_less_trans)
next
  fix x y z
  assume "x \<in> A" "y \<in> A" "z \<in> A" and n: "\<not> row_less reverse x y" "\<not> row_less reverse y z"
  with assms have "percent x \<noteq> NaN" "percent y \<noteq> NaN" "percent z \<noteq> NaN"
    by simp_all
  then show "\<not> row_less reverse x z"
    using n by (rule row_less_negative_trans)
qed

lemma in_order_row_less:
  assumes "in_order (row_less reverse) xs" and nan: "\<forall>c\<in>set xs. percent c \<noteq> NaN"
  shows "sorted_wrt (\<lambda>a b. if reverse then float_ge (percent a) (percent b)
                         else float_le (percent a) (percent b)) xs"
proof -
  have step: "if reverse then float_ge (percent a) (percent b) else float_le (percent a) (percent b)"
    if a: "a \<in> set xs" and b: "b \<in> set xs"
      and ord: "row_less reverse a b \<or> \<not> row_less reverse b a" for a b
  proof -
    from a b nan have n: "percent a \<noteq> NaN" "percent b \<noteq> NaN"
      by simp_all
    show ?thesis
    proof (cases reverse)
      case True
      with ord have "float_le (percent b) (percent a) \<or> \<not> float_le (percent a) (percent b)"
        by (simp add: row_less_def float_ge_def)
      then have "float_le (percent b) (percent a)"
        using float_not_le [OF n] by blast
      with True show ?thesis
        by (simp add: float_ge_def)
    next
      case False
      with ord have "float_lt (percent a) (percent b) \<or> \<not> float_lt (percent b) (percent a)"
        by (simp add: row_less_def)
      then have "float_le (percent a) (percent b)"
        using float_lt_le [of "percent a" "percent b"] float_not_lt [OF n(2,1)] by blast
      with False show ?thesis
        by simp
    qed
  qed
  from assms(1) have "sorted_wrt (\<lambda>x y. row_less reverse x y \<or> \<not> row_less reverse y x) xs"
    by (simp add: in_order_def)
  with step show ?thesis
    by (rule sorted_wrt_mono_rel)
qed

section \<open>The report\<close>

lemma funcs_loop_sums:
  "funcs_loop profile fe (fileTotal, fileCovered, tot, covered) =
     (fileTotal + sum_list (map (\<lambda>f. snd (coverage f profile)) fe),
      fileCovered + sum_list (map (\<lambda>f. fst (coverage f profile)) fe),
      tot + sum_list (map (\<lambda>f. snd (coverage f profile)) fe),
      covered + sum_list (map (\<lambda>f. fst (coverage f profile)) fe))"
  by (induction fe arbitrary: fileTotal fileCovered tot covered)
     (simp_all add: add.assoc split: prod.splits)

lemma profiles_loop_sums:
  "profiles_loop w dirs profiles (tot, covered, coverfiles) = Inr (tot', covered', coverfiles') \<Longrightarrow>
   tot' = tot + sum_list (map (file_total w dirs) profiles) \<and>
   covered' = covered + sum_list (map (file_covered w dirs) profiles)"
proof (induction profiles arbitrary: tot covered coverfiles)
  case Nil
  then show ?case by simp
next
  case (Cons profile profiles)
  from Cons.prems obtain f fe where
    f: "findFile w dirs (FileName profile) = Inr f" and fe: "test w f = Inr fe"
    by (auto split: sum.splits)
  have ext: "file_extents w dirs profile = fe"
    by (simp add: file_extents_def f fe)
  let ?d = "sum_list (map (\<lambda>f. snd (coverage f profile)) fe)"
  let ?n = "sum_list (map (\<lambda>f. fst (coverage f profile)) fe)"
  from Cons.prems have
    "profiles_loop w dirs profiles
       (tot + ?d, covered + ?n,
        coverfiles @ [\<lparr>filename = f, percent = percent_of (round64 w) (0 + ?n) (0 + ?d)\<rparr>]) =
     Inr (tot', covered', coverfiles')"
    by (simp add: f fe funcs_loop_sums)
  from Cons.IH [OF this] show ?case
    by (simp add: file_total_def file_covered_def ext add.assoc)
qed

text \<open>The run on the profile of two files: 0 of 3 statements and 3 of 5 statements.\<close>

lemma run_two_files:
  "run two_files_world ''cover.out'' False =
     Inr \<lparr>rows = [(Red, ''./c.go'', Finite 0), (Yellow, ''./ab.go'', Finite 60)],
          total_row = (Yellow, Finite (75 / 2))\<rparr>"
  by (simp add: run_def findPkgs_def findFile_def test_def HasPrefix_def Visit_def
      coverage_def past_end_def before_start_def percent_of_def float_div_def float_mul_def
      float64_of_def sort_Slice_def insertionSort_func_def insert_loop.simps row_less_def
      getColor_def float_gt_def plain_world_def two_files_world_def profile_AB_def
      profile_C_def block_A_def block_B_def block_C_def file_AB_def file_C_def)

subsection \<open>The order of the rows\<close>

text \<open>Before the sort, \<^verbatim>\<open>coverfiles\<close> holds the row of every profile, in their order.\<close>

lemma profiles_loop_rows:
  "profiles_loop w dirs profiles (tot, covered, coverfiles) = Inr (tot', covered', coverfiles') \<Longrightarrow>
   coverfiles' = coverfiles @
     map (\<lambda>profile. \<lparr>filename = file_path w dirs profile,
                       percent = file_percent w dirs profile\<rparr>) profiles"
proof (induction profiles arbitrary: tot covered coverfiles)
  case Nil
  then show ?case by simp
next
  case (Cons profile profiles)
  from Cons.prems obtain f fe where
    f: "findFile w dirs (FileName profile) = Inr f" and fe: "test w f = Inr fe"
    by (auto split: sum.splits)
  have ext: "file_extents w dirs profile = fe" and path: "file_path w dirs profile = f"
    by (simp_all add: file_extents_def file_path_def f fe)
  let ?d = "sum_list (map (\<lambda>f. snd (coverage f profile)) fe)"
  let ?n = "sum_list (map (\<lambda>f. fst (coverage f profile)) fe)"
  have pc: "file_percent w dirs profile = percent_of (round64 w) ?n ?d"
    by (simp add: file_percent_def file_covered_def file_total_def ext)
  from Cons.prems have
    "profiles_loop w dirs profiles
       (tot + ?d, covered + ?n,
        coverfiles @ [\<lparr>filename = f, percent = percent_of (round64 w) (0 + ?n) (0 + ?d)\<rparr>]) =
     Inr (tot', covered', coverfiles')"
    by (simp add: f fe funcs_loop_sums)
  from Cons.IH [OF this] show ?case
    by (simp add: path pc)
qed

text \<open>
  Claim C5 as stated fails: the sort is not stable. The profile lists \<^verbatim>\<open>./t1.go\<close> before
  \<^verbatim>\<open>./t2.go\<close>, both with 8 of 16 statements covered, and the report of the run with
  \<^verbatim>\<open>reverse\<close> lists \<^verbatim>\<open>./t2.go\<close> before \<^verbatim>\<open>./t1.go\<close>: rows of equal percentage do not keep
  their order.
\<close>

theorem run_rows_not_stable_counterexample:
  "ParseProfiles ties_world ''cover.out'' = Inr [profile_of ''t1'' 8, profile_of ''t2'' 8] \<and>
   run ties_world ''cover.out'' True =
     Inr \<lparr>rows = [(Yellow, ''./t2.go'', Finite 50), (Yellow, ''./t1.go'', Finite 50)],
          total_row = (Yellow, Finite 50)\<rparr>"
  by (simp add: run_def findPkgs_def findFile_def test_def HasPrefix_def Visit_def
      coverage_def past_end_def before_start_def percent_of_def float_div_def float_mul_def
      float64_of_def sort_Slice_def insertionSort_func_def insert_loop.simps row_less_def
      getColor_def float_gt_def float_ge_def plain_world_def ties_world_def profile_of_def
      file_C_def)

text \<open>
  A row whose percentage is not a number stops the sort from ordering the others: every
  comparison with it fails, so the rows of 100 and of 0 percent on its two sides are
  never compared and stay in descending order in a run without \<^verbatim>\<open>reverse\<close>. The
  order of the rows is therefore stated for reports without such a row.
\<close>

lemma run_rows_nan_not_ascending:
  "run nan_world ''cover.out'' False =
     Inr \<lparr>rows = [(Green, ''./hi.go'', Finite 100), (Default, ''./v.go'', NaN),
                  (Red, ''./lo.go'', Finite 0)],
          total_row = (Yellow, Finite 50)\<rparr>"
  by (simp add: run_def findPkgs_def findFile_def test_def HasPrefix_def Visit_def
      coverage_def past_end_def before_start_def percent_of_def float_div_def float_mul_def
      float64_of_def sort_Slice_def insertionSort_func_def insert_loop.simps row_less_def
      getColor_def float_gt_def float_ge_def plain_world_def nan_world_def profile_of_def
      profile_V_def block_V_def file_V_def file_C_def)

text \<open>
  Claim C5, amended. When the run succeeds and no row has a percentage that is not a
  number, the rows of the report are the rows of the files of the profile in some order
  (a permutation of them), in ascending order of percentage without \<^verbatim>\<open>reverse\<close> and in
  descending order with it. Nothing is said on the order of rows of equal percentage:
  the sort is not stable. For a report of at most 12 rows this is proved from the
  insertion sort of the library; for a longer report it rests on the contract of the
  library's sort of long slices.
\<close>

theorem run_rows_sorted:
  assumes "run w file reverse = Inr report" and "ParseProfiles w file = Inr profiles"
    and "findPkgs w profiles = Inr dirs"
    and "\<forall>row\<in>set (rows report). snd (snd row) \<noteq> NaN"
    and "12 < length profiles \<longrightarrow> sort_contract (pdqsort_func w)"
  shows "mset (rows report) = mset (map (file_row w dirs) profiles) \<and>
         sorted_wrt (row_order reverse) (rows report)"
proof -
  let ?render = "\<lambda>coverfile. (getColor (percent coverfile), filename coverfile, percent coverfile)"
  let ?file = "\<lambda>profile. \<lparr>filename = file_path w dirs profile,
                       percent = file_percent w dirs profile\<rparr>"
  from assms(1-3) obtain tot covered coverfiles where
    loop: "profiles_loop w dirs profiles (0, 0, []) = Inr (tot, covered, coverfiles)"
    by (auto simp: run_def split: sum.splits)
  from profiles_loop_rows [OF loop] have files: "coverfiles = map ?file profiles"
    by simp
  let ?sorted = "sort_Slice (pdqsort_func w) coverfiles (row_less reverse)"
  from assms(1-3) loop have rows: "rows report = map ?render ?sorted"
    by (auto simp: run_def Let_def)
  from files assms(5) have lib: "12 < length coverfiles \<longrightarrow> sort_contract (pdqsort_func w)"
    by simp
  have perm: "mset ?sorted = mset coverfiles"
    using lib by (rule sort_Slice_contract(1))
  then have "mset (map ?render ?sorted) = mset (map ?render coverfiles)"
    by simp
  also have "map ?render coverfiles = map (file_row w dirs) profiles"
    by (simp add: files file_row_def)
  finally have 1: "mset (rows report) = mset (map (file_row w dirs) profiles)"
    by (simp add: rows)
  from assms(4) have nan_sorted: "\<forall>c\<in>set ?sorted. percent c \<noteq> NaN"
    by (auto simp: rows)
  moreover from perm have "set ?sorted = set coverfiles"
    by (rule mset_eq_setD)
  ultimately have "\<forall>c\<in>set coverfiles. percent c \<noteq> NaN"
    by simp
  then have "transitive_ordering (row_less reverse) (set coverfiles)"
    by (rule row_less_transitive_ordering)
  with lib have "in_order (row_less reverse) ?sorted"
    by (rule sort_Slice_contract(2))
  then have "sorted_wrt (\<lambda>a b. if reverse then float_ge (percent a) (percent b)
                         else float_le (percent a) (percent b)) ?sorted"
    using nan_sorted by (rule in_order_row_less)
  then have 2: "sorted_wrt (row_order reverse) (rows report)"
    by (cases reverse) (simp_all add: rows sorted_wrt_map row_order_def)
  from 1 2 show ?thesis ..
qed

text \<open>The run on the profile of thirteen files, whose rows come out in ascending order.\<close>

lemma run_thirteen:
  "run thirteen_world ''cover.out'' False =
     Inr \<lparr>rows = thirteen_rows, total_row = (Yellow, Finite (75 / 2))\<rparr>"
  by (simp add: run_def findPkgs_def findFile_def test_def HasPrefix_def Visit_def
      coverage_def past_end_def before_start_def percent_of_def float_div_def float_mul_def
      float64_of_def sort_Slice_def isort_rev_def row_less_def
      getColor_def float_gt_def float_ge_def plain_world_def thirteen_world_def
      thirteen_profiles_def thirteen_rows_def profile_of_def file_C_def)

theorem run_rows_sorted_witness:
  "run thirteen_world ''cover.out'' False =
     Inr \<lparr>rows = thirteen_rows, total_row = (Yellow, Finite (75 / 2))\<rparr> \<and>
   ParseProfiles thirteen_world ''cover.out'' = Inr thirteen_profiles \<and>
   findPkgs thirteen_world thirteen_profiles = Inr Map.empty \<and>
   length thirteen_profiles = 13 \<and>
   list_all (\<lambda>row. snd (snd row) \<noteq> NaN) thirteen_rows \<and>
   sort_contract (pdqsort_func thirteen_world) \<and>
   mset thirteen_rows = mset (map (file_row thirteen_world Map.empty) thirteen_profiles) \<and>
   sorted_wrt (row_order False) thirteen_rows"
proof -
  let ?report = "\<lparr>rows = thirteen_rows, total_row = (Yellow, Finite (75 / 2))\<rparr>"
  have parse: "ParseProfiles thirteen_world ''cover.out'' = Inr thirteen_profiles"
    by (simp add: thirteen_world_def plain_world_def)
  have pkgs: "findPkgs thirteen_world thirteen_profiles = Inr Map.empty"
    by (simp add: findPkgs_def HasPrefix_def thirteen_profiles_def profile_of_def)
  have len: "length thirteen_profiles = 13"
    by (simp add: thirteen_profiles_def)
  have nan: "list_all (\<lambda>row. snd (snd row) \<noteq> NaN) thirteen_rows"
    by (simp add: thirteen_rows_def)
  then have nan': "\<forall>row\<in>set (rows ?report). snd (snd row) \<noteq> NaN"
    by (simp add: list_all_iff)
  have lib: "sort_contract (pdqsort_func thirteen_world)"
    by (simp add: thirteen_world_def isort_rev_contract)
  from run_rows_sorted [OF run_thirteen parse pkgs nan'] lib
  have "mset thirteen_rows = mset (map (file_row thirteen_world Map.empty) thirteen_profiles)"
    "sorted_wrt (row_order False) thirteen_rows"
    by simp_all
  with run_thirteen parse pkgs len nan lib show ?thesis
    by blast
qed

subsection \<open>The total\<close>

text \<open>
  The \<^verbatim>\<open>int64\<close> counters of \<^verbatim>\<open>coverage\<close> and of \<^verbatim>\<open>run\<close> are the statement counts as
  numbers, reduced modulo \<open>2\<^sup>6\<^sup>4\<close>. When the counts of the blocks are not negative and
  the sum of the totals is below \<open>2\<^sup>6\<^sup>3\<close>, no counter wraps.
\<close>

lemma coverage_loop_word_of_int:
  "coverage_loop f bs (word_of_int c, word_of_int t) =
     (case coverage_int_loop f bs (c, t) of (c', t') \<Rightarrow> (word_of_int c', word_of_int t'))"
  by (induction bs arbitrary: c t) (simp_all flip: of_int_add)

lemma coverage_int_loop_bounds:
  assumes "\<forall>b\<in>set bs. 0 \<le> NumStmt b" "0 \<le> c" "c \<le> t"
  shows "0 \<le> fst (coverage_int_loop f bs (c, t)) \<and>
         fst (coverage_int_loop f bs (c, t)) \<le> snd (coverage_int_loop f bs (c, t)) \<and>
         t \<le> snd (coverage_int_loop f bs (c, t))"
  using assms
proof (induction bs arbitrary: c t)
  case Nil
  then show ?case by simp
next
  case (Cons b bs)
  have nn: "0 \<le> NumStmt b" "\<forall>b\<in>set bs. 0 \<le> NumStmt b"
    using Cons.prems(1) by simp_all
  have hit: "0 \<le> c + NumStmt b" "c + NumStmt b \<le> t + NumStmt b"
    and miss: "c \<le> t + NumStmt b"
    using Cons.prems nn by simp_all
  from Cons.IH [OF nn(2) Cons.prems(2,3)] Cons.IH [OF nn(2) hit] Cons.IH [OF nn(2) Cons.prems(2) miss]
    Cons.prems nn
  show ?case
    by auto
qed

lemma coverage_int_bounds:
  assumes "\<forall>b\<in>set (Blocks profile). 0 \<le> NumStmt b"
  shows "0 \<le> fst (coverage_int f profile) \<and>
         fst (coverage_int f profile) \<le> snd (coverage_int f profile) \<and>
         1 \<le> snd (coverage_int f profile)"
  using coverage_int_loop_bounds [OF assms, of 0 0 f]
  by (auto simp: coverage_int_def split: prod.splits)

lemma word_of_int_eq_0_small:
  "0 \<le> x \<Longrightarrow> x < 2 ^ 63 \<Longrightarrow> (word_of_int x :: int64) = 0 \<longleftrightarrow> x = 0"
  using sint_word_of_int_small [of x] by (metis sint_0 word_of_int_0)

lemma coverage_word_of_int:
  assumes "\<forall>b\<in>set (Blocks profile). 0 \<le> NumStmt b"
    and "snd (coverage_int f profile) < 2 ^ 63"
  shows "coverage f profile =
           (word_of_int (fst (coverage_int f profile)), word_of_int (snd (coverage_int f profile)))"
proof -
  obtain c t where loop: "coverage_int_loop f (Blocks profile) (0, 0) = (c, t)"
    by (cases "coverage_int_loop f (Blocks profile) (0, 0)")
  from coverage_int_loop_bounds [OF assms(1), of 0 0 f] loop have t0: "0 \<le> t"
    by simp
  from assms(2) loop have "t < 2 ^ 63"
    by (simp add: coverage_int_def split: if_splits)
  with t0 have "(word_of_int t :: int64) = 0 \<longleftrightarrow> t = 0"
    by (rule word_of_int_eq_0_small)
  moreover from coverage_loop_word_of_int [of f "Blocks profile" 0 0] loop
  have "coverage_loop f (Blocks profile) (0, 0) = (word_of_int c, word_of_int t)"
    by simp
  ultimately show ?thesis
    using loop by (simp add: coverage_def coverage_int_def)
qed

lemma sum_list_word_of_int:
  "sum_list (map (\<lambda>x. word_of_int (g x) :: int64) xs) = word_of_int (sum_list (map g xs))"
  by (induction xs) simp_all

lemma sum_list_member_le:
  fixes g :: "'a \<Rightarrow> int"
  assumes "\<forall>x\<in>set xs. 0 \<le> g x" "y \<in> set xs"
  shows "g y \<le> sum_list (map g xs)"
  using assms
proof (induction xs)
  case Nil
  then show ?case by simp
next
  case (Cons a xs)
  have rest: "0 \<le> sum_list (map g xs)"
    using Cons.prems(1) by (intro sum_list_nonneg) auto
  show ?case
  proof (cases "y = a")
    case True
    with rest show ?thesis by simp
  next
    case False
    with Cons.prems have "g y \<le> sum_list (map g xs)"
      by (intro Cons.IH) auto
    moreover have "0 \<le> g a"
      using Cons.prems(1) by simp
    ultimately show ?thesis by simp
  qed
qed

lemma file_counts_word_of_int:
  assumes nn: "\<forall>b\<in>set (Blocks profile). 0 \<le> NumStmt b"
    and small: "file_total_int w dirs profile < 2 ^ 63"
  shows "file_covered w dirs profile = word_of_int (file_covered_int w dirs profile)"
    and "file_total w dirs profile = word_of_int (file_total_int w dirs profile)"
proof -
  let ?fe = "file_extents w dirs profile"
  have each: "coverage f profile =
      (word_of_int (fst (coverage_int f profile)), word_of_int (snd (coverage_int f profile)))"
    if "f \<in> set ?fe" for f
  proof -
    have "0 \<le> snd (coverage_int f' profile)" for f'
      using coverage_int_bounds [OF nn, of f'] by linarith
    then have "\<forall>f\<in>set ?fe. 0 \<le> snd (coverage_int f profile)"
      by blast
    then have "snd (coverage_int f profile) \<le> file_total_int w dirs profile"
      unfolding file_total_int_def using that by (rule sum_list_member_le)
    with small have "snd (coverage_int f profile) < 2 ^ 63"
      by simp
    with nn show ?thesis
      by (rule coverage_word_of_int)
  qed
  have "map (\<lambda>f. fst (coverage f profile)) ?fe =
      map (\<lambda>f. word_of_int (fst (coverage_int f profile))) ?fe"
    using each by (intro map_cong refl) simp
  then show "file_covered w dirs profile = word_of_int (file_covered_int w dirs profile)"
    by (simp only: file_covered_def file_covered_int_def sum_list_word_of_int)
  have "map (\<lambda>f. snd (coverage f profile)) ?fe =
      map (\<lambda>f. word_of_int (snd (coverage_int f profile))) ?fe"
    using each by (intro map_cong refl) simp
  then show "file_total w dirs profile = word_of_int (file_total_int w dirs profile)"
    by (simp only: file_total_def file_total_int_def sum_list_word_of_int)
qed

lemma file_counts_int_bounds:
  assumes "\<forall>b\<in>set (Blocks profile). 0 \<le> NumStmt b"
  shows "0 \<le> file_covered_int w dirs profile"
    and "file_covered_int w dirs profile \<le> file_total_int w dirs profile"
proof -
  from coverage_int_bounds [OF assms]
  have a: "0 \<le> fst (coverage_int f profile)"
    and b: "fst (coverage_int f profile) \<le> snd (coverage_int f profile)" for f
    by blast+
  show "0 \<le> file_covered_int w dirs profile"
    unfolding file_covered_int_def using a by (intro sum_list_nonneg) auto
  show "file_covered_int w dirs profile \<le> file_total_int w dirs profile"
    unfolding file_covered_int_def file_total_int_def using b by (intro sum_list_mono) auto
qed

lemma percent_of_word_of_int:
  assumes "0 \<le> c" "c < 2 ^ 63" "0 \<le> t" "t < 2 ^ 63"
  shows "percent_of rnd (word_of_int c) (word_of_int t) = percent_of_int rnd c t"
  using assms by (simp add: percent_of_def percent_of_int_def float64_of_def sint_word_of_int_small)

lemma run_total_row:
  assumes "run w file reverse = Inr report" "ParseProfiles w file = Inr profiles"
    "findPkgs w profiles = Inr dirs"
  shows "snd (total_row report) =
      percent_of (round64 w) (sum_list (map (file_covered w dirs) profiles))
        (sum_list (map (file_total w dirs) profiles))"
proof -
  from assms obtain tot covered coverfiles where
    loop: "profiles_loop w dirs profiles (0, 0, []) = Inr (tot, covered, coverfiles)"
    by (auto simp: run_def split: sum.splits)
  from profiles_loop_sums [OF loop] assms loop show ?thesis
    by (auto simp: run_def Let_def)
qed

text \<open>
  Claim C8 as stated fails: the sums are \<^verbatim>\<open>int64\<close> sums, which wrap. For two files with
  one block of \<open>2\<^sup>6\<^sup>2\<close> statements each, of which the first ran, the rows show 100
  and 0 percent; the covered statements sum to \<open>2\<^sup>6\<^sup>2\<close> and the total statements to
  \<open>2\<^sup>6\<^sup>3\<close>, so 100 times their quotient is 50, and the total row shows -50.
\<close>

theorem total_percent_overflow_counterexample:
  "run wrap_world ''cover.out'' False =
     Inr \<lparr>rows = [(Red, ''./g2.go'', Finite 0), (Green, ''./g1.go'', Finite 100)],
          total_row = (Red, Finite (- 50))\<rparr> \<and>
   ParseProfiles wrap_world ''cover.out'' = Inr [profile_G1, profile_G2] \<and>
   findPkgs wrap_world [profile_G1, profile_G2] = Inr Map.empty \<and>
   file_covered_int wrap_world Map.empty profile_G1 = 4611686018427387904 \<and>
   file_total_int wrap_world Map.empty profile_G1 = 4611686018427387904 \<and>
   file_covered_int wrap_world Map.empty profile_G2 = 0 \<and>
   file_total_int wrap_world Map.empty profile_G2 = 4611686018427387904 \<and>
   percent_of_int (round64 wrap_world) (4611686018427387904 + 0)
     (4611686018427387904 + 4611686018427387904) = Finite 50"
  by (simp add: run_def findPkgs_def findFile_def test_def HasPrefix_def Visit_def
      coverage_def past_end_def before_start_def percent_of_def float_div_def float_mul_def
      float64_of_def sort_Slice_def insertionSort_func_def insert_loop.simps row_less_def
      getColor_def float_gt_def float_ge_def plain_world_def wrap_world_def profile_G1_def profile_G2_def block_G1_def
      block_G2_def file_C_def file_covered_int_def file_total_int_def file_extents_def
      coverage_int_def percent_of_int_def)

text \<open>
  Claim C8, amended. When no statement count of a block is negative and the total
  statement counts of all files sum to less than \<open>2\<^sup>6\<^sup>3\<close>, the percentage of the
  total row is \<^verbatim>\<open>100.0 * float64(covered) / float64(total)\<close> for the sums, as numbers, of
  the covered and of the total statement counts of all files. It is not the mean of the
  percentages of the rows: for the two files above the rows show 0 and 60 and the total
  is 37.5.
\<close>

theorem total_percent_weighted_no_overflow:
  "(run w file reverse = Inr report \<and> ParseProfiles w file = Inr profiles \<and>
      findPkgs w profiles = Inr dirs \<and>
      (\<forall>profile\<in>set profiles. \<forall>b\<in>set (Blocks profile). 0 \<le> NumStmt b) \<and>
      sum_list (map (file_total_int w dirs) profiles) < 2 ^ 63 \<longrightarrow>
    snd (total_row report) =
      percent_of_int (round64 w) (sum_list (map (file_covered_int w dirs) profiles))
        (sum_list (map (file_total_int w dirs) profiles))) \<and>
   (\<exists>report. run two_files_world ''cover.out'' False = Inr report \<and>
      map (\<lambda>row. snd (snd row)) (rows report) = [Finite 0, Finite 60] \<and>
      snd (total_row report) = Finite (75 / 2) \<and> (75 / 2 :: rat) \<noteq> (0 + 60) / 2)"
proof (intro conjI impI)
  assume a: "run w file reverse = Inr report \<and> ParseProfiles w file = Inr profiles \<and>
      findPkgs w profiles = Inr dirs \<and>
      (\<forall>profile\<in>set profiles. \<forall>b\<in>set (Blocks profile). 0 \<le> NumStmt b) \<and>
      sum_list (map (file_total_int w dirs) profiles) < 2 ^ 63"
  let ?C = "sum_list (map (file_covered_int w dirs) profiles)"
  let ?T = "sum_list (map (file_total_int w dirs) profiles)"
  from a have nn: "\<forall>b\<in>set (Blocks profile). 0 \<le> NumStmt b" if "profile \<in> set profiles" for profile
    using that by blast
  from a have small: "?T < 2 ^ 63"
    by blast
  have c0: "0 \<le> file_covered_int w dirs profile"
    and ct: "file_covered_int w dirs profile \<le> file_total_int w dirs profile"
    if "profile \<in> set profiles" for profile
    using file_counts_int_bounds [OF nn [OF that]] by blast+
  then have t0: "\<forall>profile\<in>set profiles. 0 \<le> file_total_int w dirs profile"
    by force
  have each_small: "file_total_int w dirs profile < 2 ^ 63" if "profile \<in> set profiles" for profile
    using sum_list_member_le [OF t0 that] small by simp
  have C0: "0 \<le> ?C"
    using c0 by (intro sum_list_nonneg) auto
  have CT: "?C \<le> ?T"
    using ct by (intro sum_list_mono) auto
  have T0: "0 \<le> ?T"
    using C0 CT by simp
  have "map (file_covered w dirs) profiles =
      map (\<lambda>profile. word_of_int (file_covered_int w dirs profile)) profiles"
    using file_counts_word_of_int(1) [OF nn each_small] by (intro map_cong refl) simp
  then have covered: "sum_list (map (file_covered w dirs) profiles) = word_of_int ?C"
    by (simp only: sum_list_word_of_int)
  have "map (file_total w dirs) profiles =
      map (\<lambda>profile. word_of_int (file_total_int w dirs profile)) profiles"
    using file_counts_word_of_int(2) [OF nn each_small] by (intro map_cong refl) simp
  then have tot: "sum_list (map (file_total w dirs) profiles) = word_of_int ?T"
    by (simp only: sum_list_word_of_int)
  from a have "snd (total_row report) =
      percent_of (round64 w) (sum_list (map (file_covered w dirs) profiles))
        (sum_list (map (file_total w dirs) profiles))"
    by (intro run_total_row) blast+
  also have "\<dots> = percent_of_int (round64 w) ?C ?T"
    unfolding covered tot using C0 CT T0 small by (intro percent_of_word_of_int) simp_all
  finally show "snd (total_row report) = percent_of_int (round64 w) ?C ?T" .
next
  show "\<exists>report. run two_files_world ''cover.out'' False = Inr report \<and>
      map (\<lambda>row. snd (snd row)) (rows report) = [Finite 0, Finite 60] \<and>
      snd (total_row report) = Finite (75 / 2) \<and> (75 / 2 :: rat) \<noteq> (0 + 60) / 2"
    by (simp add: run_two_files)
qed

theorem total_percent_weighted_no_overflow_witness:
  "run two_files_world ''cover.out'' False =
     Inr \<lparr>rows = [(Red, ''./c.go'', Finite 0), (Yellow, ''./ab.go'', Finite 60)],
          total_row = (Yellow, Finite (75 / 2))\<rparr> \<and>
   ParseProfiles two_files_world ''cover.out'' = Inr [profile_AB, profile_C] \<and>
   findPkgs two_files_world [profile_AB, profile_C] = Inr Map.empty \<and>
   Blocks profile_AB = [block_A, block_B] \<and> Blocks profile_C = [block_C] \<and>
   0 \<le> NumStmt block_A \<and> 0 \<le> NumStmt block_B \<and> 0 \<le> NumStmt block_C \<and>
   sum_list (map (file_covered_int two_files_world Map.empty) [profile_AB, profile_C]) = 3 \<and>
   sum_list (map (file_total_int two_files_world Map.empty) [profile_AB, profile_C]) = 8 \<and>
   (8 :: int) < 2 ^ 63 \<and>
   Finite (75 / 2) = percent_of_int (round64 two_files_world) 3 8"
proof -
  let ?report = "\<lparr>rows = [(Red, ''./c.go'', Finite 0), (Yellow, ''./ab.go'', Finite 60)],
          total_row = (Yellow, Finite (75 / 2))\<rparr>"
  have parse: "ParseProfiles two_files_world ''cover.out'' = Inr [profile_AB, profile_C]"
    by (simp add: two_files_world_def plain_world_def)
  have pkgs: "findPkgs two_files_world [profile_AB, profile_C] = Inr Map.empty"
    by (simp add: findPkgs_def HasPrefix_def profile_AB_def profile_C_def)
  have blocks: "Blocks profile_AB = [block_A, block_B]" "Blocks profile_C = [block_C]"
    and nn: "0 \<le> NumStmt block_A" "0 \<le> NumStmt block_B" "0 \<le> NumStmt block_C"
    by (simp_all add: profile_AB_def profile_C_def block_A_def block_B_def block_C_def)
  then have all_nn: "\<forall>profile\<in>set [profile_AB, profile_C]. \<forall>b\<in>set (Blocks profile). 0 \<le> NumStmt b"
    by simp
  have covered:
    "sum_list (map (file_covered_int two_files_world Map.empty) [profile_AB, profile_C]) = 3"
    by (simp add: file_covered_int_def file_extents_def findFile_def test_def HasPrefix_def
        Visit_def coverage_int_def past_end_def before_start_def plain_world_def
        two_files_world_def profile_AB_def profile_C_def block_A_def block_B_def block_C_def
        file_AB_def file_C_def)
  have tot:
    "sum_list (map (file_total_int two_files_world Map.empty) [profile_AB, profile_C]) = 8"
    by (simp add: file_total_int_def file_extents_def findFile_def test_def HasPrefix_def
        Visit_def coverage_int_def past_end_def before_start_def plain_world_def
        two_files_world_def profile_AB_def profile_C_def block_A_def block_B_def block_C_def
        file_AB_def file_C_def)
  have small: "sum_list (map (file_total_int two_files_world Map.empty) [profile_AB, profile_C]) < 2 ^ 63"
    unfolding tot by simp
  from total_percent_weighted_no_overflow
    [of two_files_world "''cover.out''" False ?report "[profile_AB, profile_C]" Map.empty]
    run_two_files parse pkgs all_nn small
  have "snd (total_row ?report) =
      percent_of_int (round64 two_files_world)
        (sum_list (map (file_covered_int two_files_world Map.empty) [profile_AB, profile_C]))
        (sum_list (map (file_total_int two_files_world Map.empty) [profile_AB, profile_C]))"
    by blast
  then have "Finite (75 / 2) = percent_of_int (round64 two_files_world) 3 8"
    unfolding covered tot by simp
  with run_two_files parse pkgs blocks nn covered tot show ?thesis
    by simp
qed

subsection \<open>The colours\<close>

text \<open>
  Claim C9. The colour of a percentage \<open>p\<close> is red exactly when \<open>p \<le> 30\<close>, yellow
  exactly when \<open>30 < p \<le> 70\<close> and green exactly when \<open>70 < p\<close>; this holds for
  every \<^verbatim>\<open>float64\<close>, also for one that is not a number, which gets none of the three.
  Every row of a report and its total row carry the colour of their percentage.
\<close>

theorem getColor_thresholds:
  "(getColor p = Red \<longleftrightarrow> float_le p (Finite 30)) \<and>
   (getColor p = Yellow \<longleftrightarrow> float_gt p (Finite 30) \<and> float_le p (Finite 70)) \<and>
   (getColor p = Green \<longleftrightarrow> float_gt p (Finite 70)) \<and>
   (run w file reverse = Inr report \<longrightarrow>
      list_all (\<lambda>(colour, f, pc). colour = getColor pc) (rows report) \<and>
      fst (total_row report) = getColor (snd (total_row report)))"
proof -
  have "list_all (\<lambda>(colour, f, pc). colour = getColor pc) (rows report) \<and>
      fst (total_row report) = getColor (snd (total_row report))"
    if "run w file reverse = Inr report"
    using that by (auto simp: run_def Let_def list_all_iff split: sum.splits)
  moreover have "(getColor p = Red \<longleftrightarrow> float_le p (Finite 30)) \<and>
   (getColor p = Yellow \<longleftrightarrow> float_gt p (Finite 30) \<and> float_le p (Finite 70)) \<and>
   (getColor p = Green \<longleftrightarrow> float_gt p (Finite 70))"
    by (cases p) (auto simp: getColor_def float_gt_def)
  ultimately show ?thesis
    by blast
qed

theorem getColor_thresholds_witness:
  "float_le (Finite 30) (Finite 30) \<and> getColor (Finite 30) = Red \<and>
   float_gt (Finite 70) (Finite 30) \<and> float_le (Finite 70) (Finite 70) \<and>
   getColor (Finite 70) = Yellow \<and>
   float_gt (Finite (701 / 10)) (Finite 70) \<and> getColor (Finite (701 / 10)) = Green \<and>
   run two_files_world ''cover.out'' False =
     Inr \<lparr>rows = [(Red, ''./c.go'', Finite 0), (Yellow, ''./ab.go'', Finite 60)],
          total_row = (Yellow, Finite (75 / 2))\<rparr> \<and>
   Red = getColor (Finite 0) \<and> Yellow = getColor (Finite 60) \<and>
   Yellow = getColor (Finite (75 / 2))"
proof -
  let ?report = "\<lparr>rows = [(Red, ''./c.go'', Finite 0), (Yellow, ''./ab.go'', Finite 60)],
          total_row = (Yellow, Finite (75 / 2))\<rparr>"
  have cmp: "float_le (Finite 30) (Finite 30)" "float_gt (Finite 70) (Finite 30)"
    "float_le (Finite 70) (Finite 70)" "float_gt (Finite (701 / 10)) (Finite 70)"
    by (simp_all add: float_gt_def)
  from getColor_thresholds [of "Finite 30" two_files_world "''cover.out''" False ?report]
    cmp run_two_files
  have red: "getColor (Finite 30) = Red" "Red = getColor (Finite 0)"
    "Yellow = getColor (Finite 60)" "Yellow = getColor (Finite (75 / 2))"
    by simp_all
  from getColor_thresholds [of "Finite 70"] cmp
  have yellow: "getColor (Finite 70) = Yellow"
    by blast
  from getColor_thresholds [of "Finite (701 / 10)"] cmp
  have green: "getColor (Finite (701 / 10)) = Green"
    by blast
  from cmp red yellow green run_two_files show ?thesis
    by blast
qed

subsection \<open>A file without function declarations\<close>

text \<open>
  Claim C7 at a file that declares no function (its only statements are in a function
  literal): no function extent is found, both counters of the file stay 0, and the
  percentage of the file and of the total is \<^verbatim>\<open>0.0 / 0.0\<close>, which is not a number. The
  guard of \<^verbatim>\<open>coverage\<close> against a zero denominator works per function and is never
  reached for such a file.
\<close>

theorem run_file_without_functions:
  "ParseProfiles literal_world ''cover.out'' = Inr [profile_V] \<and>
   test literal_world ''./v.go'' = Inr [] \<and>
   run literal_world ''cover.out'' False =
     Inr \<lparr>rows = [(Default, ''./v.go'', NaN)], total_row = (Default, NaN)\<rparr>"
  by (simp add: run_def findPkgs_def findFile_def test_def HasPrefix_def Visit_def
      percent_of_def float_div_def float_mul_def float64_of_def sort_Slice_def
      insertionSort_func_def getColor_def float_gt_def plain_world_def literal_world_def
      profile_V_def block_V_def file_V_def)

subsection \<open>The exit status\<close>

text \<open>
  Claim C6 at a profile file that does not exist: the run fails, \<^verbatim>\<open>main\<close> prints the
  error and returns, and the exit status of the process is 0, as after a run that
  succeeds. The exit status is 0 whatever the command line and the files are.
\<close>

theorem main_failed_run_exit_status:
  "run two_files_world ''missing.out'' False =
     Inl ''open missing.out: no such file or directory'' \<and>
   main two_files_world (Parsed False [''missing.out'']) =
     \<lparr>stdout = [ErrorLine (''Error: open missing.out: no such file or directory'' @ [CHR 0x0A])],
      exit_status = 0\<rparr> \<and>
   exit_status (main two_files_world (Parsed False [''cover.out''])) = 0 \<and>
   (\<forall>w cmdline. exit_status (main w cmdline) = 0)"
proof -
  have failed: "run two_files_world ''missing.out'' False =
      Inl ''open missing.out: no such file or directory''"
    by (simp add: run_def two_files_world_def plain_world_def)
  then have printed: "main two_files_world (Parsed False [''missing.out'']) =
     \<lparr>stdout = [ErrorLine (''Error: open missing.out: no such file or directory'' @ [CHR 0x0A])],
      exit_status = 0\<rparr>"
    by (simp add: main_def Action_def)
  have status: "exit_status (main w cmdline) = 0" for w cmdline
    by (simp add: main_def split: cmdline.splits sum.splits)
  from failed printed status show ?thesis
    by simp
qed

end
